theory Spec2Isabelle
  imports Complex_Main "HOL-Library.Log_Nat" "HOL-Library.List_Lexorder" "HOL-Library.Char_ord"
begin

section \<open>JavaScript numbers\<close>

text \<open>
  A JavaScript number is an IEEE-754 binary64 value: a finite value (a rational on the
  binary64 grid), one of the two infinities, or NaN. The sign of zero is not represented
  (no path of the modelled code observes it: every division is guarded against a zero
  divisor).
\<close>

datatype jsnum = Fin rat | PInf | NInf | NaN

text \<open>\<^verbatim>\<open>Number.isFinite(value)\<close>\<close>

fun isFinite :: "jsnum \<Rightarrow> bool" where
  "isFinite (Fin q) = True"
| "isFinite PInf = False"
| "isFinite NInf = False"
| "isFinite NaN = False"

text \<open>
  Reading an array at an index: JavaScript yields \<^verbatim>\<open>undefined\<close> (here \<open>None\<close>) outside
  the range, and \<^verbatim>\<open>Number.isFinite(undefined)\<close> is false.
\<close>

definition arrayAt :: "'a list \<Rightarrow> int \<Rightarrow> 'a option" where
  "arrayAt xs i = (if 0 \<le> i \<and> i < int (length xs) then Some (xs ! nat i) else None)"

fun isFiniteV :: "jsnum option \<Rightarrow> bool" where
  "isFiniteV None = False"
| "isFiniteV (Some v) = isFinite v"

text \<open>The comparisons \<^verbatim>\<open><\<close>, \<^verbatim>\<open>>\<close>, \<^verbatim>\<open>>=\<close> and \<^verbatim>\<open>===\<close> on numbers; every comparison
  with NaN is false.\<close>

fun jsLess :: "jsnum \<Rightarrow> jsnum \<Rightarrow> bool" where
  "jsLess NaN b = False"
| "jsLess a NaN = False"
| "jsLess (Fin a) (Fin b) = (a < b)"
| "jsLess (Fin a) PInf = True"
| "jsLess (Fin a) NInf = False"
| "jsLess PInf b = False"
| "jsLess NInf NInf = False"
| "jsLess NInf b = True"

definition jsGreater :: "jsnum \<Rightarrow> jsnum \<Rightarrow> bool" where
  "jsGreater a b = jsLess b a"

definition strictEq :: "jsnum \<Rightarrow> jsnum \<Rightarrow> bool" where
  "strictEq a b = (a \<noteq> NaN \<and> b \<noteq> NaN \<and> a = b)"

definition jsGreaterEq :: "jsnum \<Rightarrow> jsnum \<Rightarrow> bool" where
  "jsGreaterEq a b = (jsLess b a \<or> strictEq a b)"

subsection \<open>Rounding to binary64\<close>

text \<open>
  \<open>ilog2 q\<close> is \<open>\<lfloor>log\<^sub>2 q\<rfloor>\<close> for a positive rational, computed from the bit lengths of
  numerator and denominator.
\<close>

definition ilog2 :: "rat \<Rightarrow> int" where
  "ilog2 q = (let (a, b) = quotient_of q; e = bitlen a - bitlen b
              in if 2 powi e \<le> q then e else e - 1)"

text \<open>Rounding a rational to the nearest integer, ties to the even one.\<close>

definition roundHalfEven :: "rat \<Rightarrow> int" where
  "roundHalfEven r = (let f = \<lfloor>r\<rfloor>; d = r - of_int f
                      in if d < 1 / 2 then f
                         else if 1 / 2 < d then f + 1
                         else if even f then f else f + 1)"

text \<open>
  Round-to-nearest, ties-to-even, onto the binary64 grid: 53 significant bits, least
  exponent -1022 (below it the grid is the subnormal one, of spacing \<open>2\<^sup>-\<^sup>1\<^sup>0\<^sup>7\<^sup>4\<close>), and a
  result of magnitude \<open>2\<^sup>1\<^sup>0\<^sup>2\<^sup>4\<close> or more is the infinity of that sign.
\<close>

definition ulpOf :: "rat \<Rightarrow> rat" where
  "ulpOf q = 2 powi (max (ilog2 \<bar>q\<bar>) (- 1022) - 52)"

definition rnd :: "rat \<Rightarrow> jsnum" where
  "rnd q = (if q = 0 then Fin 0
            else let u = ulpOf q; r = of_int (roundHalfEven (q / u)) * u
                 in if 2 powi 1024 \<le> \<bar>r\<bar> then (if 0 < q then PInf else NInf) else Fin r)"

subsection \<open>Arithmetic\<close>

fun fneg :: "jsnum \<Rightarrow> jsnum" where
  "fneg (Fin a) = Fin (- a)"
| "fneg PInf = NInf"
| "fneg NInf = PInf"
| "fneg NaN = NaN"

fun fadd :: "jsnum \<Rightarrow> jsnum \<Rightarrow> jsnum" where
  "fadd NaN b = NaN"
| "fadd a NaN = NaN"
| "fadd (Fin a) (Fin b) = rnd (a + b)"
| "fadd (Fin a) b = b"
| "fadd PInf NInf = NaN"
| "fadd NInf PInf = NaN"
| "fadd a b = a"

definition fsub :: "jsnum \<Rightarrow> jsnum \<Rightarrow> jsnum" where
  "fsub a b = fadd a (fneg b)"

fun sgn_js :: "jsnum \<Rightarrow> int" where
  "sgn_js (Fin a) = (if a < 0 then - 1 else if a = 0 then 0 else 1)"
| "sgn_js PInf = 1"
| "sgn_js NInf = - 1"
| "sgn_js NaN = 0"

definition signedInf :: "int \<Rightarrow> jsnum" where
  "signedInf s = (if s < 0 then NInf else if s = 0 then NaN else PInf)"

fun fmul :: "jsnum \<Rightarrow> jsnum \<Rightarrow> jsnum" where
  "fmul NaN b = NaN"
| "fmul a NaN = NaN"
| "fmul (Fin a) (Fin b) = rnd (a * b)"
| "fmul a b = signedInf (sgn_js a * sgn_js b)"

fun fdiv :: "jsnum \<Rightarrow> jsnum \<Rightarrow> jsnum" where
  "fdiv NaN b = NaN"
| "fdiv a NaN = NaN"
| "fdiv (Fin a) (Fin b) = (if b = 0 then signedInf (sgn_js (Fin a)) else rnd (a / b))"
| "fdiv (Fin a) b = Fin 0"
| "fdiv a (Fin b) = signedInf (sgn_js a * (if b < 0 then - 1 else 1))"
| "fdiv a b = NaN"

section \<open>Gap filling\<close>

text \<open>
  \<^verbatim>\<open>fillMissingValues(array)\<close> runs the same loop body twice: once from the first index
  to the last, once from the last to the first, each time starting with
  \<^verbatim>\<open>lastValid = null\<close>. \<open>fillPass\<close> is one such pass over the elements in the order
  they are visited.
\<close>

fun fillPass :: "jsnum option \<Rightarrow> jsnum list \<Rightarrow> jsnum list" where
  "fillPass lastValid [] = []"
| "fillPass lastValid (v # vs) =
     (if isFinite v then v # fillPass (Some v) vs
      else (case lastValid of
              Some l \<Rightarrow> l # fillPass lastValid vs
            | None \<Rightarrow> v # fillPass lastValid vs))"

definition fillMissingValues :: "jsnum list \<Rightarrow> jsnum list" where
  "fillMissingValues array = rev (fillPass None (rev (fillPass None array)))"

section \<open>Normalisation\<close>

text \<open>\<^verbatim>\<open>Math.min(...values)\<close> and \<^verbatim>\<open>Math.max(...values)\<close>: the infinities on no argument,
  NaN as soon as one argument is NaN.\<close>

fun mathMin :: "jsnum list \<Rightarrow> jsnum" where
  "mathMin [] = PInf"
| "mathMin (x # xs) =
     (let m = mathMin xs in if x = NaN \<or> m = NaN then NaN else if jsLess x m then x else m)"

fun mathMax :: "jsnum list \<Rightarrow> jsnum" where
  "mathMax [] = NInf"
| "mathMax (x # xs) =
     (let m = mathMax xs in if x = NaN \<or> m = NaN then NaN else if jsLess m x then x else m)"

definition minMaxScale :: "jsnum list \<Rightarrow> jsnum list" where
  "minMaxScale series =
     (let filtered = filter isFinite series;
          min = mathMin filtered;
          max = mathMax filtered
      in if \<not> isFinite min \<or> \<not> isFinite max \<or> strictEq min max
         then map (\<lambda>_. Fin 0) series
         else map (\<lambda>value. fdiv (fsub value min) (fsub max min)) series)"

text \<open>
  \<^verbatim>\<open>Math.sqrt\<close>, correctly rounded: \<open>isqrt\<close> is the integer square root, and the
  significand of the root is the integer nearest to \<open>\<surd>(q / u\<^sup>2)\<close> for the spacing \<open>u\<close> of
  the grid at the root. \<^verbatim>\<open>x ** 2\<close> is the rounded product of \<open>x\<close> with itself.
\<close>

fun isqrt :: "nat \<Rightarrow> nat" where
  "isqrt n = (if n < 4 then (if n = 0 then 0 else 1)
              else let r = 2 * isqrt (n div 4) in if (r + 1) * (r + 1) \<le> n then r + 1 else r)"

declare isqrt.simps [simp del]

fun mathSqrt :: "jsnum \<Rightarrow> jsnum" where
  "mathSqrt NaN = NaN"
| "mathSqrt PInf = PInf"
| "mathSqrt NInf = NaN"
| "mathSqrt (Fin q) =
     (if q < 0 then NaN
      else if q = 0 then Fin 0
      else let u = 2 powi (ilog2 q div 2 - 52);
               t = q / (u * u);
               m = int (isqrt (nat \<lfloor>t\<rfloor>));
               h = of_int m + 1 / 2
           in Fin (of_int (if t < h * h then m
                           else if h * h < t then m + 1
                           else if even m then m else m + 1) * u))"

definition square :: "jsnum \<Rightarrow> jsnum" where
  "square x = fmul x x"

text \<open>An array length as a number.\<close>

definition lengthNum :: "'a list \<Rightarrow> jsnum" where
  "lengthNum xs = Fin (of_nat (length xs))"

text \<open>The mean as \<^verbatim>\<open>standardScale\<close> computes it:
  \<^verbatim>\<open>filtered.reduce((acc, value) => acc + value, 0) / filtered.length\<close>.\<close>

definition seriesMean :: "jsnum list \<Rightarrow> jsnum" where
  "seriesMean filtered =
     fdiv (foldl (\<lambda>acc value. fadd acc value) (Fin 0) filtered) (lengthNum filtered)"

definition standardScale :: "jsnum list \<Rightarrow> jsnum list" where
  "standardScale series =
     (let filtered = filter isFinite series
      in if length filtered = 0 then map (\<lambda>_. Fin 0) series
         else let mean = seriesMean filtered;
                  variance = fdiv (foldl (\<lambda>acc value. fadd acc (square (fsub value mean)))
                                         (Fin 0) filtered)
                                  (lengthNum filtered);
                  std = mathSqrt variance
              in if \<not> isFinite std \<or> strictEq std (Fin 0)
                 then map (\<lambda>_. Fin 0) series
                 else map (\<lambda>value. if isFinite value then fdiv (fsub value mean) std else Fin 0)
                          series)"

section \<open>The feature cube\<close>

text \<open>
  A row of the parsed CSV. The date is the canonical \<^verbatim>\<open>YYYY-MM-DD\<close> string; it is
  represented by its day number, which is what \<^verbatim>\<open>new Date(a) - new Date(b)\<close> compares.
\<close>

record row =
  date :: int
  symbol :: string
  "open" :: jsnum
  close :: jsnum

datatype fkey = Open | Close | Return | Momentum3 | Volatility5

definition FEATURE_KEYS :: "fkey list" where
  "FEATURE_KEYS = [Open, Close, Return, Momentum3, Volatility5]"

text \<open>The per-symbol object of feature arrays, and the cube keyed by symbol.\<close>

type_synonym features = "fkey \<Rightarrow> jsnum list"
type_synonym cube = "string \<rightharpoonup> features"

record loader =
  sequenceLength :: int
  predictionHorizon :: int
  trainSplit :: jsnum
  rows :: "row list"
  symbols :: "string list"
  dates :: "int list"
  featureCube :: cube
  normalisedCube :: cube
  featuresPerSymbol :: "fkey list"

text \<open>The constructor, with its defaults when an option is absent.\<close>

definition newDataLoader :: "int option \<Rightarrow> int option \<Rightarrow> jsnum option \<Rightarrow> loader" where
  "newDataLoader sl ph ts =
     \<lparr> sequenceLength = (case sl of None \<Rightarrow> 12 | Some v \<Rightarrow> v),
       predictionHorizon = (case ph of None \<Rightarrow> 3 | Some v \<Rightarrow> v),
       trainSplit = (case ts of None \<Rightarrow> Fin (3602879701896397 / 4503599627370496) | Some v \<Rightarrow> v),
       rows = [], symbols = [], dates = [],
       featureCube = Map.empty, normalisedCube = Map.empty,
       featuresPerSymbol = FEATURE_KEYS \<rparr>"

definition returns :: "jsnum list \<Rightarrow> jsnum list" where
  "returns closes =
     map (\<lambda>index.
            if index = 0 then Fin 0
            else let value = closes ! index; previous = closes ! (index - 1)
                 in if \<not> isFinite value \<or> \<not> isFinite previous \<or> strictEq previous (Fin 0)
                    then Fin 0
                    else fdiv (fsub value previous) previous)
         [0..<length closes]"

definition momentum3 :: "jsnum list \<Rightarrow> jsnum list" where
  "momentum3 closes =
     map (\<lambda>index.
            if index < 3 then Fin 0
            else let value = closes ! index; baseline = closes ! (index - 3)
                 in if \<not> isFinite value \<or> \<not> isFinite baseline \<or> strictEq baseline (Fin 0)
                    then Fin 0
                    else fdiv (fsub value baseline) baseline)
         [0..<length closes]"

definition volatility5 :: "jsnum list \<Rightarrow> jsnum list" where
  "volatility5 closes =
     map (\<lambda>index.
            if index < 4 then Fin 0
            else let window = take 5 (drop (index - 4) closes)
                 in if list_ex (\<lambda>v. \<not> isFinite v) window then Fin 0
                    else let mean = fdiv (foldl (\<lambda>acc v. fadd acc v) (Fin 0) window)
                                         (lengthNum window)
                         in if \<not> isFinite mean \<or> strictEq mean (Fin 0) then Fin 0
                            else let variance =
                                       fdiv (foldl (\<lambda>acc v. fadd acc (square (fsub v mean)))
                                                   (Fin 0) window)
                                            (lengthNum window);
                                     std = mathSqrt variance
                                 in if \<not> isFinite std then Fin 0 else fdiv std mean)
         [0..<length closes]"

text \<open>One row scattered into the cube; a row of a symbol the cube does not hold is
  ignored. A non-finite price is stored as NaN.\<close>

definition scatterRow :: "(int \<rightharpoonup> nat) \<Rightarrow> row \<Rightarrow> cube \<Rightarrow> cube" where
  "scatterRow dateIndex r cube =
     (case cube (symbol r) of
        None \<Rightarrow> cube
      | Some target \<Rightarrow>
          (case dateIndex (date r) of
             None \<Rightarrow> cube
           | Some idx \<Rightarrow>
               cube(symbol r \<mapsto> target
                 (Open := (target Open)[idx := (if isFinite (open r) then open r else NaN)],
                  Close := (target Close)[idx := (if isFinite (close r) then close r else NaN)]))))"

text \<open>The second pass over the symbols: gap filling of \<open>Open\<close> and \<open>Close\<close>, then the
  derived features from the filled closes.\<close>

definition deriveFeatures :: "features \<Rightarrow> features" where
  "deriveFeatures target =
     (let opens = fillMissingValues (target Open);
          closes = fillMissingValues (target Close)
      in target(Open := opens, Close := closes, Return := returns closes,
                Momentum3 := momentum3 closes, Volatility5 := volatility5 closes))"

definition normalise :: "features \<Rightarrow> features" where
  "normalise fs = (\<lambda>key. case key of
       Open \<Rightarrow> minMaxScale (fs Open)
     | Close \<Rightarrow> minMaxScale (fs Close)
     | Return \<Rightarrow> standardScale (fs Return)
     | Momentum3 \<Rightarrow> standardScale (fs Momentum3)
     | Volatility5 \<Rightarrow> standardScale (fs Volatility5))"

text \<open>
  \<^verbatim>\<open>buildFeatureCube()\<close>. The sets of dates and symbols become sorted arrays without
  duplicates; every symbol of \<open>symbols\<close> is a key of the cube from the first loop on, so
  the later loops find it (their \<open>None\<close> branches are never taken).
\<close>

definition buildFeatureCube :: "loader \<Rightarrow> loader" where
  "buildFeatureCube st =
     (let dates' = sort (remdups (map date (rows st)));
          symbols' = sort (remdups (map symbol (rows st)));
          cube0 = fold (\<lambda>symb cube. cube(symb \<mapsto> (\<lambda>key. replicate (length dates') NaN)))
                       symbols' Map.empty;
          dateIndex = fold (\<lambda>(d, idx) acc. acc(d \<mapsto> idx))
                           (zip dates' [0..<length dates']) Map.empty;
          cube1 = fold (scatterRow dateIndex) (rows st) cube0;
          cube2 = fold (\<lambda>symb cube. case cube symb of
                                       Some target \<Rightarrow> cube(symb \<mapsto> deriveFeatures target)
                                     | None \<Rightarrow> cube)
                       symbols' cube1;
          ncube = fold (\<lambda>symb ncube. case cube2 symb of
                                        Some fs \<Rightarrow> ncube(symb \<mapsto> normalise fs)
                                      | None \<Rightarrow> ncube)
                       symbols' Map.empty
      in st\<lparr>dates := dates', symbols := symbols', featureCube := cube2,
             normalisedCube := ncube\<rparr>)"

section \<open>The windowed dataset\<close>

datatype error = TypeError | NoSequences | NotEnoughSamples | TensorError

text \<open>
  Every loop of \<^verbatim>\<open>createWindowedDataset()\<close> below the anchor loop has one shape: visit
  the items in order, push what each yields, and on the first invalid item set
  \<^verbatim>\<open>valid = false\<close> and break, which abandons the window. \<open>collect\<close> is that loop:
  \<open>Inr (Some ys)\<close> is the array pushed, \<open>Inr None\<close> is \<^verbatim>\<open>valid = false\<close>, and \<open>Inl e\<close> is
  an exception thrown on the way (reading a property of \<^verbatim>\<open>undefined\<close>).
\<close>

fun collect :: "('a \<Rightarrow> error + 'b option) \<Rightarrow> 'a list \<Rightarrow> error + 'b list option" where
  "collect f [] = Inr (Some [])"
| "collect f (x # xs) =
     (case f x of
        Inl e \<Rightarrow> Inl e
      | Inr None \<Rightarrow> Inr None
      | Inr (Some y) \<Rightarrow>
          (case collect f xs of
             Inl e \<Rightarrow> Inl e
           | Inr None \<Rightarrow> Inr None
           | Inr (Some ys) \<Rightarrow> Inr (Some (y # ys))))"

text \<open>The inner loops push into the array of the enclosing loop: the collected arrays
  are concatenated.\<close>

definition flatten :: "error + 'b list list option \<Rightarrow> error + 'b list option" where
  "flatten r = (case r of Inl e \<Rightarrow> Inl e | Inr None \<Rightarrow> Inr None
                | Inr (Some yss) \<Rightarrow> Inr (Some (concat yss)))"

text \<open>\<^verbatim>\<open>this.normalisedCube[symbol][featureKey][index]\<close> and its finiteness check.\<close>

definition featureValue :: "loader \<Rightarrow> string \<Rightarrow> int \<Rightarrow> fkey \<Rightarrow> error + jsnum option" where
  "featureValue st symb index featureKey =
     (case normalisedCube st symb of
        None \<Rightarrow> Inl TypeError
      | Some fs \<Rightarrow>
          (case arrayAt (fs featureKey) index of
             None \<Rightarrow> Inr None
           | Some value \<Rightarrow> if \<not> isFinite value then Inr None else Inr (Some value)))"

definition timestepAt :: "loader \<Rightarrow> int \<Rightarrow> error + jsnum list option" where
  "timestepAt st index =
     flatten (collect (\<lambda>symb. collect (featureValue st symb index) (featuresPerSymbol st))
                      (symbols st))"

text \<open>The offsets run from \<open>sequenceLength - 1\<close> down to 0.\<close>

definition sequenceAt :: "loader \<Rightarrow> int \<Rightarrow> error + jsnum list list option" where
  "sequenceAt st anchor =
     collect (\<lambda>offset. timestepAt st (anchor - offset)) (rev [0..sequenceLength st - 1])"

text \<open>The label of one symbol: the raw close at each future offset against the raw close
  at the anchor.\<close>

definition symbolTargets :: "loader \<Rightarrow> int \<Rightarrow> string \<Rightarrow> error + jsnum list option" where
  "symbolTargets st baselineIndex symb =
     (case featureCube st symb of
        None \<Rightarrow> Inl TypeError
      | Some fs \<Rightarrow>
          (case arrayAt (fs Close) baselineIndex of
             None \<Rightarrow> Inr None
           | Some baselineClose \<Rightarrow>
               if \<not> isFinite baselineClose then Inr None
               else collect (\<lambda>horizon.
                               case arrayAt (fs Close) (baselineIndex + horizon) of
                                 None \<Rightarrow> Inr None
                               | Some futureClose \<Rightarrow>
                                   if \<not> isFinite futureClose then Inr None
                                   else Inr (Some (if jsGreater futureClose baselineClose
                                                   then Fin 1 else Fin 0)))
                            [1..predictionHorizon st]))"

definition targetVectorAt :: "loader \<Rightarrow> int \<Rightarrow> error + jsnum list option" where
  "targetVectorAt st anchor = flatten (collect (symbolTargets st anchor) (symbols st))"

text \<open>A sample: the sequence, the target vector, and \<^verbatim>\<open>this.dates[anchor]\<close>.\<close>

type_synonym sample = "jsnum list list \<times> jsnum list \<times> int option"

definition windowAt :: "loader \<Rightarrow> int \<Rightarrow> error + sample option" where
  "windowAt st anchor =
     (case sequenceAt st anchor of
        Inl e \<Rightarrow> Inl e
      | Inr None \<Rightarrow> Inr None
      | Inr (Some sequence) \<Rightarrow>
          (case targetVectorAt st anchor of
             Inl e \<Rightarrow> Inl e
           | Inr None \<Rightarrow> Inr None
           | Inr (Some targetVector) \<Rightarrow>
               Inr (Some (sequence, targetVector, arrayAt (dates st) anchor))))"

text \<open>The anchor loop: an invalid window is skipped (\<^verbatim>\<open>continue\<close>), a valid one is
  appended.\<close>

fun anchorLoop :: "loader \<Rightarrow> int list \<Rightarrow> error + sample list" where
  "anchorLoop st [] = Inr []"
| "anchorLoop st (anchor # rest) =
     (case windowAt st anchor of
        Inl e \<Rightarrow> Inl e
      | Inr w \<Rightarrow>
          (case anchorLoop st rest of
             Inl e \<Rightarrow> Inl e
           | Inr ws \<Rightarrow> Inr (case w of None \<Rightarrow> ws | Some s \<Rightarrow> s # ws)))"

definition windows :: "loader \<Rightarrow> error + sample list" where
  "windows st =
     anchorLoop st [sequenceLength st - 1 .. int (length (dates st)) - predictionHorizon st - 1]"

text \<open>\<^verbatim>\<open>Math.floor\<close>.\<close>

fun mathFloor :: "jsnum \<Rightarrow> jsnum" where
  "mathFloor (Fin q) = Fin (of_int \<lfloor>q\<rfloor>)"
| "mathFloor v = v"

record dataset =
  X_train :: "jsnum list list list"
  X_test :: "jsnum list list list"
  y_train :: "jsnum list list"
  y_test :: "jsnum list list"
  sampleDates :: "int option list"
  splitIndex :: nat

text \<open>
  \<^verbatim>\<open>tensor.slice(begin, size)\<close> along the first axis (the other axes are taken whole).
  The tensors are the arrays of samples; the conversion of their entries to float32 is
  not represented. The tensor library rejects a begin or size that is NaN.
\<close>

definition tensorSlice :: "nat \<Rightarrow> nat \<Rightarrow> 'a list \<Rightarrow> 'a list" where
  "tensorSlice begin sz t = take sz (drop begin t)"

text \<open>
  \<^verbatim>\<open>createWindowedDataset()\<close>. Between the two length checks the samples are made
  tensors of the shapes \<^verbatim>\<open>[N, sequenceLength, featuresPerStep]\<close> and
  \<^verbatim>\<open>[N, numSymbols * predictionHorizon]\<close>; \<^verbatim>\<open>tf.tensor\<close> throws on a shape with a
  negative dimension (\<open>N\<close> and \<open>featuresPerStep\<close> are not negative, and the windows are
  arrays of these very dimensions otherwise).
\<close>

definition createWindowedDataset :: "loader \<Rightarrow> error + dataset" where
  "createWindowedDataset st =
     (case windows st of
        Inl e \<Rightarrow> Inl e
      | Inr samples \<Rightarrow>
          let sequences = map fst samples;
              targets = map (fst \<circ> snd) samples;
              dates' = map (snd \<circ> snd) samples
          in if length sequences = 0 then Inl NoSequences
             else if sequenceLength st < 0
                     \<or> int (length (symbols st)) * predictionHorizon st < 0
             then Inl TensorError
             else if length sequences < 2 then Inl NotEnoughSamples
             else let rawSplit = mathFloor (fmul (lengthNum sequences) (trainSplit st));
                      split = mathMin [Fin (of_nat (length sequences) - 1),
                                       mathMax [Fin 1, rawSplit]]
                  in (case split of
                        Fin q \<Rightarrow>
                          let k = nat \<lfloor>q\<rfloor>
                          in Inr \<lparr> X_train = tensorSlice 0 k sequences,
                                   X_test = tensorSlice k (length sequences - k) sequences,
                                   y_train = tensorSlice 0 k targets,
                                   y_test = tensorSlice k (length targets - k) targets,
                                   sampleDates = dates',
                                   splitIndex = k \<rparr>
                      | _ \<Rightarrow> Inl TensorError))"

text \<open>\<^verbatim>\<open>prepareDataset()\<close> builds the cube and windows it.\<close>

definition prepareDataset :: "loader \<Rightarrow> error + dataset" where
  "prepareDataset st = createWindowedDataset (buildFeatureCube st)"

section \<open>The earlier loader's sequences\<close>

text \<open>
  The first version of the loader keeps \<^verbatim>\<open>null\<close> in its arrays where no row gave a value,
  so an array read is \<^verbatim>\<open>undefined\<close> (outside the range), \<^verbatim>\<open>null\<close> or a number.
  \<open>toNumber\<close> is the conversion that \<^verbatim>\<open>></\<close> applies to its operands.
\<close>

datatype jsval = Undefined | Null | Num jsnum

fun toNumber :: "jsval \<Rightarrow> jsnum" where
  "toNumber Undefined = NaN"
| "toNumber Null = Fin 0"
| "toNumber (Num v) = v"

definition readAt :: "jsnum option list \<Rightarrow> int \<Rightarrow> jsval" where
  "readAt xs i = (case arrayAt xs i of None \<Rightarrow> Undefined | Some None \<Rightarrow> Null
                  | Some (Some v) \<Rightarrow> Num v)"

record legacyFeatures =
  legacyOpen :: "jsnum option list"
  legacyClose :: "jsnum option list"

text \<open>The fields \<^verbatim>\<open>symbols\<close> (a set, iterated in insertion order), \<^verbatim>\<open>dateIndex\<close> (of
  which \<^verbatim>\<open>createSequences\<close> uses the keys only), \<^verbatim>\<open>featureData\<close> and
  \<^verbatim>\<open>normalizedData\<close>.\<close>

record legacyLoader =
  legacySymbols :: "string list"
  legacyDates :: "int list"
  featureData :: "string \<rightharpoonup> legacyFeatures"
  normalizedData :: "string \<rightharpoonup> legacyFeatures"

text \<open>A loop that pushes what each item yields and stops at an exception.\<close>

fun forEachE :: "('a \<Rightarrow> error + 'b list) \<Rightarrow> 'a list \<Rightarrow> error + 'b list" where
  "forEachE f [] = Inr []"
| "forEachE f (x # xs) =
     (case f x of
        Inl e \<Rightarrow> Inl e
      | Inr ys \<Rightarrow> (case forEachE f xs of Inl e \<Rightarrow> Inl e | Inr zs \<Rightarrow> Inr (ys @ zs)))"

definition legacyTimeStep :: "legacyLoader \<Rightarrow> int \<Rightarrow> error + jsval list" where
  "legacyTimeStep st j =
     forEachE (\<lambda>symb. case normalizedData st symb of
                          None \<Rightarrow> Inl TypeError
                        | Some fs \<Rightarrow> Inr [readAt (legacyOpen fs) j, readAt (legacyClose fs) j])
              (legacySymbols st)"

definition legacyTarget :: "legacyLoader \<Rightarrow> int \<Rightarrow> int \<Rightarrow> error + jsnum list" where
  "legacyTarget st predictionDays i =
     forEachE (\<lambda>symb. case featureData st symb of
                          None \<Rightarrow> Inl TypeError
                        | Some fs \<Rightarrow>
                            let currentClose = readAt (legacyClose fs) i
                            in Inr (map (\<lambda>k. let futureClose = readAt (legacyClose fs) (i + k)
                                             in if futureClose \<noteq> Null \<and> currentClose \<noteq> Null
                                                then (if jsGreater (toNumber futureClose)
                                                                   (toNumber currentClose)
                                                      then Fin 1 else Fin 0)
                                                else Fin 0)
                                        [1..predictionDays]))
              (legacySymbols st)"

text \<open>
  \<^verbatim>\<open>createSequences()\<close> up to the conversion to tensors: every anchor \<open>i\<close> from
  \<open>sequenceLength\<close> to \<open>dateArray.length - predictionDays - 1\<close> pushes its sequence and
  its target; no window is ever skipped. \<^verbatim>\<open>tf.tensor3d(sequences)\<close> then throws when
  there is no window at all (an empty array has no shape of rank 3). The result is the
  list of the pairs of a sequence and its target, before the split.
\<close>

definition createSequences :: "legacyLoader \<Rightarrow> error + (jsval list list \<times> jsnum list) list" where
  "createSequences st =
     (let sequenceLength = 12; predictionDays = 3
      in case forEachE (\<lambda>i. case forEachE (\<lambda>j. case legacyTimeStep st j of
                                                      Inl e \<Rightarrow> Inl e
                                                    | Inr timeStep \<Rightarrow> Inr [timeStep])
                                            [i - sequenceLength .. i - 1] of
                                Inl e \<Rightarrow> Inl e
                              | Inr sequence \<Rightarrow>
                                  (case legacyTarget st predictionDays i of
                                     Inl e \<Rightarrow> Inl e
                                   | Inr target \<Rightarrow> Inr [(sequence, target)]))
                       [sequenceLength .. int (length (legacyDates st)) - predictionDays - 1] of
           Inl e \<Rightarrow> Inl e
         | Inr samples \<Rightarrow> if samples = [] then Inl TensorError else Inr samples)"

section \<open>Evaluation\<close>

record confusion =
  tp :: nat
  fp :: nat
  fn :: nat
  tn :: nat

record dayFlag =
  predicted :: jsnum
  actual :: jsval
  correct :: bool

record timelineEntry =
  correctCount :: nat
  total :: int
  perDayFlags :: "dayFlag list"

text \<open>The accumulators of \<^verbatim>\<open>analysePredictions\<close>: the three objects keyed by symbol
  (\<open>totals\<close> holds the pair \<^verbatim>\<open>{correct, total}\<close>) and the two global counters.\<close>

record tally =
  timeline :: "string \<rightharpoonup> timelineEntry list"
  totals :: "string \<rightharpoonup> nat \<times> int"
  confusions :: "string \<rightharpoonup> confusion"
  globalCorrect :: nat
  globalTotal :: nat

record report =
  perStockAccuracy :: "string \<rightharpoonup> jsnum"
  perStockTimeline :: "string \<rightharpoonup> timelineEntry list"
  perStockConfusion :: "string \<rightharpoonup> confusion"
  overallAccuracy :: jsnum

text \<open>\<^verbatim>\<open>row[offset + day] >= 0.5 ? 1 : 0\<close>\<close>

definition threshold :: "jsval \<Rightarrow> jsnum" where
  "threshold v = (if jsGreaterEq (toNumber v) (Fin (1 / 2)) then Fin 1 else Fin 0)"

text \<open>The four-way classification; \<open>pred\<close> is 1 or 0, and \<^verbatim>\<open>===\<close> against the number
  \<open>n\<close> holds of the value \<open>Num (Fin n)\<close> only.\<close>

definition classify :: "jsnum \<Rightarrow> jsval \<Rightarrow> confusion \<Rightarrow> confusion" where
  "classify pred act c =
     (if pred = Fin 1 \<and> act = Num (Fin 1) then c\<lparr>tp := tp c + 1\<rparr>
      else if pred = Fin 1 \<and> act = Num (Fin 0) then c\<lparr>fp := fp c + 1\<rparr>
      else if pred = Fin 0 \<and> act = Num (Fin 1) then c\<lparr>fn := fn c + 1\<rparr>
      else c\<lparr>tn := tn c + 1\<rparr>)"

text \<open>An update of the entry of a symbol in one of the objects; every symbol of the list
  is a key from the initialisation on.\<close>

definition updateAt :: "string \<Rightarrow> ('v \<Rightarrow> 'v) \<Rightarrow> (string \<rightharpoonup> 'v) \<Rightarrow> (string \<rightharpoonup> 'v)" where
  "updateAt symb f m = (case m symb of None \<Rightarrow> m | Some v \<Rightarrow> m(symb \<mapsto> f v))"

fun foldE :: "('a \<Rightarrow> 's \<Rightarrow> error + 's) \<Rightarrow> 'a list \<Rightarrow> 's \<Rightarrow> error + 's" where
  "foldE f [] s = Inr s"
| "foldE f (x # xs) s = (case f x s of Inl e \<Rightarrow> Inl e | Inr s' \<Rightarrow> foldE f xs s')"

text \<open>One day of one symbol of one row; \<^verbatim>\<open>groundTruthArray[rowIndex]\<close> is read here, and
  throws when there is no such row.\<close>

definition dayStep ::
  "jsnum list list \<Rightarrow> int \<Rightarrow> jsnum list \<Rightarrow> string \<Rightarrow> int \<Rightarrow> int
   \<Rightarrow> tally \<times> nat \<times> dayFlag list \<Rightarrow> error + tally \<times> nat \<times> dayFlag list" where
  "dayStep groundTruthArray rowIndex row symb offset day acc =
     (case acc of (t, count, flags) \<Rightarrow>
        let pred = threshold (case arrayAt row (offset + day) of
                                None \<Rightarrow> Undefined | Some v \<Rightarrow> Num v)
        in (case arrayAt groundTruthArray rowIndex of
              None \<Rightarrow> Inl TypeError
            | Some truth \<Rightarrow>
                let act = (case arrayAt truth (offset + day) of
                             None \<Rightarrow> Undefined | Some v \<Rightarrow> Num v);
                    hit = (act = Num pred);
                    t1 = t\<lparr>confusions := updateAt symb (classify pred act) (confusions t)\<rparr>;
                    t2 = (if hit then t1\<lparr>globalCorrect := globalCorrect t1 + 1\<rparr> else t1);
                    t3 = t2\<lparr>globalTotal := globalTotal t2 + 1\<rparr>
                in Inr (t3, (if hit then count + 1 else count),
                        flags @ [\<lparr>predicted = pred, actual = act, correct = hit\<rparr>])))"

definition symbolStep ::
  "jsnum list list \<Rightarrow> int \<Rightarrow> jsnum list \<Rightarrow> int \<Rightarrow> string \<times> int \<Rightarrow> tally \<Rightarrow> error + tally" where
  "symbolStep groundTruthArray rowIndex row predictionDays item t =
     (case item of (symb, stockIdx) \<Rightarrow>
        let offset = stockIdx * predictionDays
        in (case foldE (dayStep groundTruthArray rowIndex row symb offset)
                       [0..predictionDays - 1] (t, 0, []) of
              Inl e \<Rightarrow> Inl e
            | Inr (t', count, flags) \<Rightarrow>
                Inr (t'\<lparr>timeline :=
                          updateAt symb
                            (\<lambda>entries. entries @ [\<lparr>correctCount = count, total = predictionDays,
                                                  perDayFlags = flags\<rparr>])
                            (timeline t'),
                        totals :=
                          updateAt symb (\<lambda>(c, n). (c + count, n + predictionDays)) (totals t')\<rparr>)))"

text \<open>\<open>indexed xs\<close> pairs every element with its index, as \<^verbatim>\<open>forEach\<close> passes them.\<close>

definition indexed :: "'a list \<Rightarrow> ('a \<times> int) list" where
  "indexed xs = zip xs (map int [0..<length xs])"

definition analysePredictions ::
  "jsnum list list \<Rightarrow> jsnum list list \<Rightarrow> string list \<Rightarrow> int \<Rightarrow> error + report" where
  "analysePredictions predictionsArray groundTruthArray syms predictionDays =
     (let t0 = \<lparr> timeline = fold (\<lambda>symb m. m(symb \<mapsto> [])) syms Map.empty,
                 totals = fold (\<lambda>symb m. m(symb \<mapsto> (0, 0))) syms Map.empty,
                 confusions = fold (\<lambda>symb m. m(symb \<mapsto> \<lparr>tp = 0, fp = 0, fn = 0, tn = 0\<rparr>))
                                   syms Map.empty,
                 globalCorrect = 0, globalTotal = 0 \<rparr>
      in (case foldE (\<lambda>(row, rowIndex).
                        foldE (symbolStep groundTruthArray rowIndex row predictionDays)
                              (indexed syms))
                     (indexed predictionsArray) t0 of
            Inl e \<Rightarrow> Inl e
          | Inr t \<Rightarrow>
              Inr \<lparr> perStockAccuracy =
                      fold (\<lambda>symb m. case totals t symb of
                                        None \<Rightarrow> m
                                      | Some (c, n) \<Rightarrow>
                                          m(symb \<mapsto> (if n = 0 then Fin 0
                                                       else fdiv (Fin (of_nat c)) (Fin (of_int n)))))
                           syms Map.empty,
                    perStockTimeline = timeline t,
                    perStockConfusion = confusions t,
                    overallAccuracy =
                      (if globalTotal t = 0 then Fin 0
                       else fdiv (Fin (of_nat (globalCorrect t))) (Fin (of_nat (globalTotal t)))) \<rparr>))"

section \<open>The plateau controller\<close>










text \<open>The number of cells a confusion record has counted, and that number for the
  entry of a symbol (0 when the symbol has no entry).\<close>

definition cells :: "confusion \<Rightarrow> nat" where
  "cells c = tp c + fp c + fn c + tn c"

definition cellsAt :: "(string \<rightharpoonup> confusion) \<Rightarrow> string \<Rightarrow> nat" where
  "cellsAt m symb = (case m symb of None \<Rightarrow> 0 | Some c \<Rightarrow> cells c)"

text \<open>
  A cube without missing values over the \<open>D\<close> dates: every symbol has its entry in both
  cubes, and over the first \<open>D\<close> positions every feature array of the normalised cube
  that the windows read and the raw \<open>Close\<close> array hold finite values only.
\<close>

definition complete :: "loader \<Rightarrow> bool" where
  "complete st =
     list_all (\<lambda>symb. case (normalisedCube st symb, featureCube st symb) of
                 (Some nf, Some rf) \<Rightarrow>
                   list_all (\<lambda>key. length (dates st) \<le> length (nf key)
                                   \<and> list_all isFinite (take (length (dates st)) (nf key)))
                            (featuresPerSymbol st)
                   \<and> length (dates st) \<le> length (rf Close)
                   \<and> list_all isFinite (take (length (dates st)) (rf Close))
               | _ \<Rightarrow> False)
              (symbols st)"

section \<open>Auxiliary notions\<close>

text \<open>The value that \<open>rnd\<close> rounds to before the overflow check.\<close>

definition rval :: "rat \<Rightarrow> rat" where
  "rval q = of_int (roundHalfEven (q / ulpOf q)) * ulpOf q"

text \<open>
  The cell \<^verbatim>\<open>row[j]\<close> of a matrix row as a value (\<^verbatim>\<open>undefined\<close> outside the row), the
  flags that the day loop of \<open>analysePredictions\<close> is to push for the days of one symbol
  of one row, and the flag lists of the timeline entries of a symbol.
\<close>

definition cellValue :: "jsnum list \<Rightarrow> int \<Rightarrow> jsval" where
  "cellValue row j = (case arrayAt row j of None \<Rightarrow> Undefined | Some v \<Rightarrow> Num v)"

definition dayFlags :: "jsnum list \<Rightarrow> jsnum list \<Rightarrow> int \<Rightarrow> int list \<Rightarrow> dayFlag list" where
  "dayFlags row truth offset days =
     map (\<lambda>day. \<lparr>predicted = threshold (cellValue row (offset + day)),
                 actual = cellValue truth (offset + day),
                 correct = (cellValue truth (offset + day)
                              = Num (threshold (cellValue row (offset + day))))\<rparr>) days"

definition flagsAt :: "(string \<rightharpoonup> timelineEntry list) \<Rightarrow> string \<Rightarrow> dayFlag list list option" where
  "flagsAt m symb = map_option (map perDayFlags) (m symb)"

section \<open>Example inputs\<close>

text \<open>
  A loader after \<^verbatim>\<open>buildFeatureCube\<close> for one symbol over five dates, with windows of
  length 2 and horizon 1; a loader with the default parameters (12 and 3) whose series
  has two dates only; and the state of the earlier loader for two symbols over sixteen
  dates, where \<open>B\<close> has rows on the last two dates only, so that its arrays start with
  fourteen \<^verbatim>\<open>null\<close>s (which \<^verbatim>\<open>minMaxNormalize\<close> turns into \<open>(0 - 5) / 1\<close>).
\<close>

definition exampleLoader :: loader where
  "exampleLoader =
     \<lparr> sequenceLength = 2, predictionHorizon = 1, trainSplit = Fin (1 / 2),
       rows = [], symbols = [''A''], dates = [1, 2, 3, 4, 5],
       featureCube = [''A'' \<mapsto> (\<lambda>key. [Fin 1, Fin 2, Fin 1, Fin 3, Fin 2])],
       normalisedCube = [''A'' \<mapsto> (\<lambda>key. [Fin 0, Fin (1 / 2), Fin 0, Fin 1, Fin (1 / 2)])],
       featuresPerSymbol = [Close] \<rparr>"

definition shortLoader :: loader where
  "shortLoader =
     (newDataLoader None None None)
       \<lparr> symbols := [''A''], dates := [1, 2],
         featureCube := [''A'' \<mapsto> (\<lambda>key. [Fin 1, Fin 2])],
         normalisedCube := [''A'' \<mapsto> (\<lambda>key. [Fin 0, Fin 1])] \<rparr>"

definition legacyExample :: legacyLoader where
  "legacyExample =
     (let a = map (Some \<circ> Fin) [1, 2, 3, 2, 1, 2, 3, 2, 1, 2, 3, 2, 1, 2, 3, 2];
          na = map (Some \<circ> Fin) [0, 1 / 2, 1, 1 / 2, 0, 1 / 2, 1, 1 / 2,
                                  0, 1 / 2, 1, 1 / 2, 0, 1 / 2, 1, 1 / 2];
          b = [None, None, None, None, None, None, None, None, None, None, None, None,
               None, None, Some (Fin 5), Some (Fin 6)];
          nb = map (Some \<circ> Fin) [- 5, - 5, - 5, - 5, - 5, - 5, - 5, - 5, - 5, - 5, - 5, - 5,
                                  - 5, - 5, 0, 1]
      in \<lparr> legacySymbols = [''A'', ''B''],
           legacyDates = [1, 2, 3, 4, 5, 6, 7, 8, 9, 10, 11, 12, 13, 14, 15, 16],
           featureData = [''A'' \<mapsto> \<lparr>legacyOpen = a, legacyClose = a\<rparr>,
                          ''B'' \<mapsto> \<lparr>legacyOpen = b, legacyClose = b\<rparr>],
           normalizedData = [''A'' \<mapsto> \<lparr>legacyOpen = na, legacyClose = na\<rparr>,
                             ''B'' \<mapsto> \<lparr>legacyOpen = nb, legacyClose = nb\<rparr>] \<rparr>)"







section \<open>Properties of the rounding\<close>


lemma two_powi_mono: "a \<le> b \<Longrightarrow> (2::rat) powi a \<le> 2 powi b"
  by (rule power_int_increasing) simp_all


lemma two_powi_less_cancel: "(2::rat) powi a < 2 powi b \<Longrightarrow> a < b"
  by (rule ccontr) (use two_powi_mono [of b a] in auto)



lemma bitlen_rat_bounds:
  assumes "0 < a"
  shows "(2::rat) powi (bitlen a - 1) \<le> of_int a" "of_int a < (2::rat) powi (bitlen a)"
proof -
  from bitlen_bounds [OF assms] have l: "2 ^ nat (bitlen a - 1) \<le> a" and u: "a < 2 ^ nat (bitlen a)"
    by auto
  from assms have b1: "1 \<le> bitlen a" by (simp add: bitlen_alt_def)
  have "(2::rat) powi (bitlen a - 1) = 2 ^ nat (bitlen a - 1)"
    using b1 by (simp add: power_int_def)
  also have "\<dots> = of_int (2 ^ nat (bitlen a - 1))" by simp
  also have "\<dots> \<le> of_int a" using l by (simp only: of_int_le_iff)
  finally show "(2::rat) powi (bitlen a - 1) \<le> of_int a" .
  have "(of_int a :: rat) < of_int (2 ^ nat (bitlen a))" using u by (simp only: of_int_less_iff)
  also have "\<dots> = 2 ^ nat (bitlen a)" by simp
  also have "\<dots> = (2::rat) powi (bitlen a)" using b1 by (simp add: power_int_def)
  finally show "of_int a < (2::rat) powi (bitlen a)" .
qed

lemma ilog2_bounds:
  assumes "0 < q"
  shows "2 powi (ilog2 q) \<le> q \<and> q < 2 powi (ilog2 q + 1)"
proof -
  obtain a b where ab: "quotient_of q = (a, b)" by (cases "quotient_of q")
  then have b: "0 < b" and q: "q = of_int a / of_int b"
    using quotient_of_denom_pos quotient_of_div by auto
  with assms have a: "0 < a" by (simp add: zero_less_divide_iff)
  let ?e = "bitlen a - bitlen b"
  note ba = bitlen_rat_bounds [OF a] and bb = bitlen_rat_bounds [OF b]
  have bpos: "(0::rat) < of_int b" using b by simp
  have lo: "2 powi (?e - 1) \<le> q"
  proof -
    have "(2::rat) powi (?e - 1) = 2 powi (bitlen a - 1) / 2 powi (bitlen b)"
      by (simp add: power_int_diff)
    also have "\<dots> \<le> of_int a / 2 powi (bitlen b)"
      using ba(1) by (simp add: divide_right_mono)
    also have "\<dots> \<le> of_int a / of_int b"
      using bb(2) a bpos by (intro divide_left_mono) (simp_all add: less_imp_le)
    finally show ?thesis by (simp add: q)
  qed
  have hi: "q < 2 powi (?e + 1)"
  proof -
    have "q = of_int a / of_int b" by (rule q)
    also have "\<dots> < 2 powi (bitlen a) / of_int b"
      using ba(2) bpos by (simp add: divide_strict_right_mono)
    also have "\<dots> \<le> 2 powi (bitlen a) / 2 powi (bitlen b - 1)"
      using bb(1) bpos by (intro divide_left_mono) simp_all
    also have "\<dots> = 2 powi (?e + 1)"
      by (simp add: power_int_diff power_int_add)
    finally show ?thesis .
  qed
  show ?thesis
  proof (cases "2 powi ?e \<le> q")
    case True
    then have "ilog2 q = ?e" by (simp add: ilog2_def ab)
    with True hi show ?thesis by simp
  next
    case False
    then have "ilog2 q = ?e - 1" by (simp add: ilog2_def ab)
    with False lo show ?thesis by simp
  qed
qed


lemma roundHalfEven_of_int [simp]: "roundHalfEven (of_int m) = m"
  by (simp add: roundHalfEven_def)


lemma ulpOf_pos [simp]: "0 < ulpOf q"
  by (simp add: ulpOf_def)

lemma ulpOf_nonzero [simp]: "ulpOf q \<noteq> 0"
  using ulpOf_pos [of q] by linarith

lemma rnd_rval:
  "rnd q = (if q = 0 then Fin 0
            else if 2 powi 1024 \<le> \<bar>rval q\<bar> then (if 0 < q then PInf else NInf)
            else Fin (rval q))"
  by (simp add: rnd_def rval_def Let_def)


lemma roundHalfEven_0 [simp]: "roundHalfEven 0 = 0"
  using roundHalfEven_of_int [of 0] by simp






text \<open>The exponent of the grid at a positive number.\<close>

lemma ulpOf_exact:
  assumes "q = of_int m * 2 powi e" "\<bar>m\<bar> < 2 ^ 53" "- 1074 \<le> e" "q \<noteq> 0"
  shows "\<exists>k::int. q / ulpOf q = of_int k"
proof -
  let ?E = "max (ilog2 \<bar>q\<bar>) (- 1022) - 52"
  have pos: "0 < \<bar>q\<bar>" using assms(4) by simp
  have "?E \<le> e"
  proof (cases "ilog2 \<bar>q\<bar> \<le> - 1022")
    case True
    then show ?thesis using assms(3) by simp
  next
    case False
    from ilog2_bounds [OF pos] have "2 powi (ilog2 \<bar>q\<bar>) \<le> \<bar>q\<bar>" by simp
    also have "\<bar>q\<bar> = of_int \<bar>m\<bar> * 2 powi e" by (simp add: assms(1) abs_mult)
    also have "\<dots> < 2 ^ 53 * 2 powi e"
    proof -
      have "(of_int \<bar>m\<bar> :: rat) < of_int (2 ^ 53)" using assms(2) by (simp only: of_int_less_iff)
      then show ?thesis by simp
    qed
    also have "\<dots> = 2 powi (53 + e)" by (simp add: power_int_add)
    finally have "ilog2 \<bar>q\<bar> < 53 + e" by (rule two_powi_less_cancel)
    with False show ?thesis by simp
  qed
  then obtain n where n: "e - ?E = int n" using nonneg_int_cases [of "e - ?E"] by auto
  have "q / ulpOf q = of_int m * (2 powi e / 2 powi ?E)"
    by (simp add: ulpOf_def assms(1))
  also have "2 powi e / 2 powi ?E = (2::rat) powi (e - ?E)" by (simp add: power_int_diff)
  also have "\<dots> = 2 ^ n" by (simp add: n)
  also have "of_int m * (2::rat) ^ n = of_int (m * 2 ^ n)" by simp
  finally show ?thesis by blast
qed

lemma rval_exact:
  assumes "q = of_int m * 2 powi e" "\<bar>m\<bar> < 2 ^ 53" "- 1074 \<le> e"
  shows "rval q = q"
proof (cases "q = 0")
  case True
  then show ?thesis by (simp add: rval_def)
next
  case False
  from ulpOf_exact [OF assms False] obtain k :: int where "q / ulpOf q = of_int k" by blast
  then have "rval q = (q / ulpOf q) * ulpOf q" by (simp add: rval_def)
  then show ?thesis by simp
qed

lemma rnd_exact:
  assumes "q = of_int m * 2 powi e" "\<bar>m\<bar> < 2 ^ 53" "- 1074 \<le> e" "\<bar>q\<bar> < 2 powi 1024"
  shows "rnd q = Fin q"
  using rval_exact [OF assms(1-3)] assms(4) by (simp add: rnd_rval)


lemma rnd_0 [simp]: "rnd 0 = Fin 0"
  by (simp add: rnd_def)




lemma rnd_not_NaN [simp]: "rnd q \<noteq> NaN"
  by (simp add: rnd_rval)

lemma roundHalfEven_below:
  assumes "of_int m \<le> r" "r - of_int m < 1 / 2"
  shows "roundHalfEven r = m"
proof -
  from assms have "\<lfloor>r\<rfloor> = m" by (intro floor_unique) auto
  with assms show ?thesis by (simp add: roundHalfEven_def)
qed






section \<open>Properties of gap filling\<close>

lemma length_fillPass [simp]: "length (fillPass l xs) = length xs"
  by (induction xs arbitrary: l) (auto split: option.splits)

lemma fillPass_keeps_finite:
  "i < length xs \<Longrightarrow> isFinite (xs ! i) \<Longrightarrow> fillPass l xs ! i = xs ! i"
proof (induction xs arbitrary: i l)
  case Nil
  then show ?case by simp
next
  case (Cons v vs)
  then show ?case by (cases i) (auto split: option.splits)
qed

lemma fillPass_Some_gap:
  "i < length xs \<Longrightarrow> isFinite l \<Longrightarrow> \<forall>k<i. \<not> isFinite (xs ! k) \<Longrightarrow> \<not> isFinite (xs ! i)
   \<Longrightarrow> fillPass (Some l) xs ! i = l"
proof (induction xs arbitrary: i)
  case Nil
  then show ?case by simp
next
  case (Cons v vs)
  show ?case
  proof (cases i)
    case 0
    with Cons.prems show ?thesis by simp
  next
    case (Suc n)
    from Cons.prems Suc have nv: "\<not> isFinite v" by auto
    from Cons.prems Suc have "\<forall>k<n. \<not> isFinite (vs ! k)" by auto
    with Cons.IH [of n] Cons.prems Suc nv show ?thesis by simp
  qed
qed

lemma fillPass_forward:
  "i < length xs \<Longrightarrow> j < i \<Longrightarrow> isFinite (xs ! j) \<Longrightarrow> \<not> isFinite (xs ! i)
   \<Longrightarrow> \<forall>k. j < k \<and> k < i \<longrightarrow> \<not> isFinite (xs ! k)
   \<Longrightarrow> fillPass l xs ! i = xs ! j"
proof (induction xs arbitrary: i j l)
  case Nil
  then show ?case by simp
next
  case (Cons v vs)
  from Cons.prems obtain n where i: "i = Suc n" by (cases i) auto
  show ?case
  proof (cases j)
    case 0
    with Cons.prems i have fv: "isFinite v" by simp
    from Cons.prems i 0 have "\<forall>k<n. \<not> isFinite (vs ! k)" by auto
    with fillPass_Some_gap [of n vs v] Cons.prems i fv 0 show ?thesis by simp
  next
    case (Suc m)
    from Cons.prems i Suc have "\<forall>k. m < k \<and> k < n \<longrightarrow> \<not> isFinite (vs ! k)" by auto
    with Cons.IH [of n m] Cons.prems i Suc show ?thesis
      by (auto split: option.splits)
  qed
qed

lemma fillPass_Some_finite:
  "isFinite w \<Longrightarrow> v \<in> set (fillPass (Some w) xs) \<Longrightarrow> isFinite v"
proof (induction xs arbitrary: w)
  case Nil
  then show ?case by simp
next
  case (Cons x xs)
  show ?case
  proof (cases "isFinite x")
    case True
    with Cons.prems Cons.IH [of x] show ?thesis by auto
  next
    case False
    with Cons.prems Cons.IH [of w] show ?thesis by auto
  qed
qed

lemma fillPass_all_finite:
  assumes "xs \<noteq> []" "isFinite (hd xs)"
  shows "\<forall>v \<in> set (fillPass l xs). isFinite v"
proof -
  from assms obtain x ys where xs: "xs = x # ys" and fx: "isFinite x" by (cases xs) auto
  then show ?thesis using fillPass_Some_finite [of x _ ys] by auto
qed

lemma fillPass_last_finite:
  "xs \<noteq> [] \<Longrightarrow> (\<exists>v. l = Some v \<and> isFinite v) \<or> (\<exists>v \<in> set xs. isFinite v)
   \<Longrightarrow> isFinite (last (fillPass l xs))"
proof (induction xs arbitrary: l)
  case Nil
  then show ?case by simp
next
  case (Cons v vs)
  show ?case
  proof (cases "vs = []")
    case True
    with Cons.prems show ?thesis by (auto split: option.splits)
  next
    case False
    have ne: "\<And>l'. fillPass l' vs \<noteq> []" using False by (metis length_fillPass length_0_conv)
    show ?thesis
    proof (cases "isFinite v")
      case True
      with Cons.IH [of "Some v"] False ne show ?thesis by simp
    next
      case nf: False
      with Cons.prems have "(\<exists>w. l = Some w \<and> isFinite w) \<or> (\<exists>w \<in> set vs. isFinite w)" by auto
      with Cons.IH [of l] False nf ne show ?thesis by (auto split: option.splits)
    qed
  qed
qed

lemma fillMissingValues_length [simp]: "length (fillMissingValues xs) = length xs"
  by (simp add: fillMissingValues_def)

lemma fillMissingValues_all_finite:
  assumes "\<exists>v \<in> set xs. isFinite v"
  shows "\<forall>v \<in> set (fillMissingValues xs). isFinite v"
proof -
  let ?ys = "fillPass None xs"
  from assms have ne: "xs \<noteq> []" by auto
  then have ys: "?ys \<noteq> []" by (metis length_fillPass length_0_conv)
  from fillPass_last_finite [OF ne, of None] assms have "isFinite (last ?ys)" by simp
  with ys have "rev ?ys \<noteq> [] \<and> isFinite (hd (rev ?ys))" by (simp add: hd_rev)
  with fillPass_all_finite [of "rev ?ys" None] show ?thesis
    by (simp add: fillMissingValues_def)
qed

lemma fillMissingValues_forward:
  assumes "i < length xs" "j < i" "isFinite (xs ! j)" "\<not> isFinite (xs ! i)"
    "\<forall>k. j < k \<and> k < i \<longrightarrow> \<not> isFinite (xs ! k)"
  shows "fillMissingValues xs ! i = xs ! j"
proof -
  let ?ys = "fillPass None xs"
  let ?n = "length xs"
  have yi: "?ys ! i = xs ! j" using assms by (rule fillPass_forward)
  have r: "rev ?ys ! (?n - Suc i) = ?ys ! i" using assms(1) by (simp add: rev_nth)
  have "fillPass None (rev ?ys) ! (?n - Suc i) = rev ?ys ! (?n - Suc i)"
    using assms(1,3) yi r by (intro fillPass_keeps_finite) auto
  then show ?thesis using assms(1) r yi by (simp add: fillMissingValues_def rev_nth)
qed

lemma fillPass_unchanged:
  "\<forall>v \<in> set xs. \<not> isFinite v \<Longrightarrow> fillPass None xs = xs"
  by (induction xs) auto

lemma fillMissingValues_unchanged:
  "\<forall>v \<in> set xs. \<not> isFinite v \<Longrightarrow> fillMissingValues xs = xs"
  by (simp add: fillMissingValues_def fillPass_unchanged)

text \<open>
  Claim C4. A series with at least one finite value has no non-finite position after
  \<open>fillMissingValues\<close>; a gap that has an earlier finite value takes the most recent
  earlier finite value (position \<open>j\<close> is finite and nothing between \<open>j\<close> and the gap \<open>i\<close>
  is), whatever follows the gap; and \<open>[1, NaN, 3]\<close> fills to \<open>[1, 1, 3]\<close>.
\<close>

theorem fillMissingValues_gap_free:
  "((\<exists>v \<in> set series. isFinite v) \<longrightarrow> (\<forall>v \<in> set (fillMissingValues series). isFinite v))
   \<and> (\<forall>i j. i < length series \<and> j < i \<and> isFinite (series ! j) \<and> \<not> isFinite (series ! i)
          \<and> (\<forall>k. j < k \<and> k < i \<longrightarrow> \<not> isFinite (series ! k))
          \<longrightarrow> fillMissingValues series ! i = series ! j)
   \<and> fillMissingValues [Fin 1, NaN, Fin 3] = [Fin 1, Fin 1, Fin 3]"
proof (intro conjI impI allI)
  assume "\<exists>v \<in> set series. isFinite v"
  then show "\<forall>v \<in> set (fillMissingValues series). isFinite v"
    by (rule fillMissingValues_all_finite)
next
  fix i j
  assume "i < length series \<and> j < i \<and> isFinite (series ! j) \<and> \<not> isFinite (series ! i)
          \<and> (\<forall>k. j < k \<and> k < i \<longrightarrow> \<not> isFinite (series ! k))"
  then show "fillMissingValues series ! i = series ! j"
    by (intro fillMissingValues_forward) auto
next
  show "fillMissingValues [Fin 1, NaN, Fin 3] = [Fin 1, Fin 1, Fin 3]"
    by (simp add: fillMissingValues_def)
qed

theorem fillMissingValues_gap_free_witness:
  "list_all isFinite (fillMissingValues [NaN, Fin 2, NaN, NaN, Fin 5])
   \<and> fillMissingValues [NaN, Fin 2, NaN, NaN, Fin 5] ! 3 = Fin 2"
proof -
  let ?xs = "[NaN, Fin 2, NaN, NaN, Fin 5]"
  have ex: "\<exists>v \<in> set ?xs. isFinite v" by simp
  have gap: "(3::nat) < length ?xs \<and> (1::nat) < 3 \<and> isFinite (?xs ! 1) \<and> \<not> isFinite (?xs ! 3)
             \<and> (\<forall>k. 1 < k \<and> k < 3 \<longrightarrow> \<not> isFinite (?xs ! k))"
  proof -
    have "\<And>k::nat. 1 < k \<Longrightarrow> k < 3 \<Longrightarrow> k = 2" by arith
    then show ?thesis by auto
  qed
  from fillMissingValues_gap_free [of ?xs] ex gap
  have "(\<forall>v \<in> set (fillMissingValues ?xs). isFinite v) \<and> fillMissingValues ?xs ! 3 = ?xs ! 1"
    by blast
  then show ?thesis by (simp add: list_all_iff)
qed

section \<open>Properties of the normalisation\<close>

lemma minMaxScale_no_finite:
  assumes "\<forall>v \<in> set xs. \<not> isFinite v"
  shows "minMaxScale xs = replicate (length xs) (Fin 0)"
proof -
  from assms have "filter isFinite xs = []" by (simp add: filter_empty_conv)
  then show ?thesis by (simp add: minMaxScale_def map_replicate_const)
qed

text \<open>
  Claim C8, as the code has it. A series without any finite value is left as it is by
  \<open>fillMissingValues\<close>, so it stays entirely non-finite in the raw cube; but
  \<open>minMaxScale\<close> then finds no finite minimum and returns the all-zero series, so in the
  normalised cube the series is zeros, not missing values.
\<close>

theorem all_missing_series_normalises_to_zeros:
  "\<forall>v \<in> set series. \<not> isFinite v \<Longrightarrow>
     fillMissingValues series = series
     \<and> minMaxScale (fillMissingValues series) = replicate (length series) (Fin 0)"
  by (simp add: fillMissingValues_unchanged minMaxScale_no_finite)

theorem all_missing_series_normalises_to_zeros_witness:
  "fillMissingValues [NaN, PInf, NaN] = [NaN, PInf, NaN]
   \<and> minMaxScale (fillMissingValues [NaN, PInf, NaN]) = [Fin 0, Fin 0, Fin 0]"
proof -
  have h: "\<forall>v \<in> set [NaN, PInf, NaN]. \<not> isFinite v" by simp
  note t = all_missing_series_normalises_to_zeros [OF h]
  have a: "fillMissingValues [NaN, PInf, NaN] = [NaN, PInf, NaN]"
    using t by (rule conjunct1)
  have b: "minMaxScale (fillMissingValues [NaN, PInf, NaN]) = [Fin 0, Fin 0, Fin 0]"
    using conjunct2 [OF t] by (simp add: numeral_3_eq_3)
  from a b show ?thesis by blast
qed

text \<open>The claim as stated fails: the all-missing series \<open>[NaN, NaN]\<close> is zeros after gap
  filling and normalisation.\<close>

theorem all_missing_series_counterexample:
  "minMaxScale (fillMissingValues [NaN, NaN]) = [Fin 0, Fin 0]"
  by (simp add: fillMissingValues_def minMaxScale_def)

section \<open>Properties of the scalers\<close>





































section \<open>Properties of the windowed dataset\<close>

lemma collect_all_ok:
  "\<forall>x \<in> set xs. \<exists>y. f x = Inr (Some y) \<Longrightarrow> \<exists>ys. collect f xs = Inr (Some ys)"
proof (induction xs)
  case Nil
  then show ?case by simp
next
  case (Cons x xs)
  then obtain y ys where "f x = Inr (Some y)" "collect f xs = Inr (Some ys)" by auto
  then show ?case by simp
qed

lemma flatten_ok: "r = Inr (Some yss) \<Longrightarrow> flatten r = Inr (Some (concat yss))"
  by (simp add: flatten_def)

lemma completeD:
  assumes "complete st" "symb \<in> set (symbols st)"
  shows "\<exists>nf rf. normalisedCube st symb = Some nf \<and> featureCube st symb = Some rf
    \<and> (\<forall>key \<in> set (featuresPerSymbol st). \<forall>i < length (dates st).
          i < length (nf key) \<and> isFinite (nf key ! i))
    \<and> (\<forall>i < length (dates st). i < length (rf Close) \<and> isFinite (rf Close ! i))"
proof -
  from assms have c: "case (normalisedCube st symb, featureCube st symb) of
                 (Some nf, Some rf) \<Rightarrow>
                   list_all (\<lambda>key. length (dates st) \<le> length (nf key)
                                   \<and> list_all isFinite (take (length (dates st)) (nf key)))
                            (featuresPerSymbol st)
                   \<and> length (dates st) \<le> length (rf Close)
                   \<and> list_all isFinite (take (length (dates st)) (rf Close))
               | _ \<Rightarrow> False"
    by (simp add: complete_def list_all_iff)
  then obtain nf rf where n: "normalisedCube st symb = Some nf" and r: "featureCube st symb = Some rf"
    by (auto split: option.splits)
  from c n r have k: "\<forall>key \<in> set (featuresPerSymbol st). length (dates st) \<le> length (nf key)
                    \<and> (\<forall>v \<in> set (take (length (dates st)) (nf key)). isFinite v)"
    and cl: "length (dates st) \<le> length (rf Close)"
      "\<forall>v \<in> set (take (length (dates st)) (rf Close)). isFinite v"
    by (simp_all add: list_all_iff)
  have fin: "\<And>(xs::jsnum list) n i. n \<le> length xs \<Longrightarrow> \<forall>v \<in> set (take n xs). isFinite v
               \<Longrightarrow> i < n \<Longrightarrow> i < length xs \<and> isFinite (xs ! i)"
  proof -
    fix xs :: "jsnum list" and n i
    assume a: "n \<le> length xs" "\<forall>v \<in> set (take n xs). isFinite v" "i < n"
    then have "take n xs ! i \<in> set (take n xs)" by (intro nth_mem) simp
    with a show "i < length xs \<and> isFinite (xs ! i)" by auto
  qed
  from k fin have "\<forall>key \<in> set (featuresPerSymbol st). \<forall>i < length (dates st).
          i < length (nf key) \<and> isFinite (nf key ! i)" by blast
  moreover from cl fin have "\<forall>i < length (dates st). i < length (rf Close) \<and> isFinite (rf Close ! i)"
    by blast
  ultimately show ?thesis using n r by blast
qed

lemma arrayAt_nth: "0 \<le> i \<Longrightarrow> nat i < length xs \<Longrightarrow> arrayAt xs i = Some (xs ! nat i)"
  unfolding arrayAt_def by (simp add: nat_less_iff)

lemma featureValue_ok:
  assumes "complete st" "symb \<in> set (symbols st)" "key \<in> set (featuresPerSymbol st)"
    "0 \<le> i" "i < int (length (dates st))"
  shows "\<exists>v. featureValue st symb i key = Inr (Some v)"
proof -
  from completeD [OF assms(1,2)] obtain nf where n: "normalisedCube st symb = Some nf"
    and k: "\<And>key i. key \<in> set (featuresPerSymbol st) \<Longrightarrow> i < length (dates st)
        \<Longrightarrow> i < length (nf key) \<and> isFinite (nf key ! i)"
    by blast
  from assms(4,5) have "nat i < length (dates st)" by simp
  from k [OF assms(3) this] assms(4) n show ?thesis
    by (simp add: featureValue_def arrayAt_nth)
qed

lemma timestepAt_ok:
  assumes "complete st" "0 \<le> i" "i < int (length (dates st))"
  shows "\<exists>ts. timestepAt st i = Inr (Some ts)"
proof -
  have "\<forall>symb \<in> set (symbols st).
          \<exists>vs. collect (featureValue st symb i) (featuresPerSymbol st) = Inr (Some vs)"
    using assms by (intro ballI collect_all_ok) (simp add: featureValue_ok)
  from collect_all_ok [OF this] show ?thesis
    by (auto simp: timestepAt_def flatten_def)
qed

lemma sequenceAt_ok:
  assumes "complete st" "sequenceLength st - 1 \<le> anchor" "anchor < int (length (dates st))"
  shows "\<exists>sq. sequenceAt st anchor = Inr (Some sq)"
proof -
  have "\<forall>offset \<in> set (rev [0..sequenceLength st - 1]).
          \<exists>ts. timestepAt st (anchor - offset) = Inr (Some ts)"
    using assms by (intro ballI timestepAt_ok) auto
  from collect_all_ok [OF this] show ?thesis by (simp add: sequenceAt_def)
qed

lemma symbolTargets_ok:
  assumes "complete st" "symb \<in> set (symbols st)" "0 \<le> anchor"
    "anchor + predictionHorizon st < int (length (dates st))" "0 \<le> predictionHorizon st"
  shows "\<exists>tv. symbolTargets st anchor symb = Inr (Some tv)"
proof -
  from completeD [OF assms(1,2)] obtain rf where r: "featureCube st symb = Some rf"
    and c: "\<And>i. i < length (dates st) \<Longrightarrow> i < length (rf Close) \<and> isFinite (rf Close ! i)"
    by blast
  have rd: "\<And>i. 0 \<le> i \<Longrightarrow> i < int (length (dates st))
              \<Longrightarrow> \<exists>v. arrayAt (rf Close) i = Some v \<and> isFinite v"
  proof -
    fix i :: int assume "0 \<le> i" "i < int (length (dates st))"
    then have "nat i < length (dates st)" by simp
    from c [OF this] \<open>0 \<le> i\<close> show "\<exists>v. arrayAt (rf Close) i = Some v \<and> isFinite v"
      by (simp add: arrayAt_nth)
  qed
  from rd [of anchor] assms obtain b where b: "arrayAt (rf Close) anchor = Some b" "isFinite b"
    by auto
  let ?f = "\<lambda>horizon. case arrayAt (rf Close) (anchor + horizon) of
                                 None \<Rightarrow> Inr None
                               | Some futureClose \<Rightarrow>
                                   if \<not> isFinite futureClose then Inr None
                                   else Inr (Some (if jsGreater futureClose b
                                                   then Fin 1 else Fin 0))"
  have "\<forall>h \<in> set [1..predictionHorizon st]. \<exists>y. (?f h :: error + jsnum option) = Inr (Some y)"
  proof
    fix h assume "h \<in> set [1..predictionHorizon st]"
    then have "0 \<le> anchor + h" "anchor + h < int (length (dates st))" using assms by auto
    from rd [OF this] show "\<exists>y. (?f h :: error + jsnum option) = Inr (Some y)" by auto
  qed
  from collect_all_ok [OF this] r b show ?thesis by (simp add: symbolTargets_def)
qed

lemma windowAt_ok:
  assumes "complete st" "1 \<le> sequenceLength st" "0 \<le> predictionHorizon st"
    "sequenceLength st - 1 \<le> anchor"
    "anchor \<le> int (length (dates st)) - predictionHorizon st - 1"
  shows "\<exists>sq tv. windowAt st anchor = Inr (Some (sq, tv, Some (dates st ! nat anchor)))"
proof -
  from assms have a0: "0 \<le> anchor" and aD: "anchor < int (length (dates st))" by auto
  from sequenceAt_ok [OF assms(1,4) aD] obtain sq where sq: "sequenceAt st anchor = Inr (Some sq)"
    by blast
  have "\<forall>symb \<in> set (symbols st). \<exists>tv. symbolTargets st anchor symb = Inr (Some tv)"
    using assms a0 by (intro ballI symbolTargets_ok) auto
  from collect_all_ok [OF this] obtain tv where "targetVectorAt st anchor = Inr (Some tv)"
    by (auto simp: targetVectorAt_def flatten_def)
  with sq a0 aD show ?thesis by (simp add: windowAt_def arrayAt_def)
qed

lemma anchorLoop_all:
  "\<forall>a \<in> set anchors. \<exists>w. windowAt st a = Inr (Some w)
   \<Longrightarrow> \<exists>ws. anchorLoop st anchors = Inr ws \<and> length ws = length anchors"
proof (induction anchors)
  case Nil
  then show ?case by simp
next
  case (Cons a anchors)
  then obtain w ws where "windowAt st a = Inr (Some w)" "anchorLoop st anchors = Inr ws"
    "length ws = length anchors" by auto
  then show ?case by simp
qed

lemma anchorLoop_length:
  "anchorLoop st anchors = Inr ws \<Longrightarrow> length ws \<le> length anchors"
proof (induction anchors arbitrary: ws)
  case Nil
  then show ?case by simp
next
  case (Cons a anchors)
  from Cons.prems obtain w ws' where "windowAt st a = Inr w" "anchorLoop st anchors = Inr ws'"
    "ws = (case w of None \<Rightarrow> ws' | Some s \<Rightarrow> s # ws')"
    by (auto split: sum.splits)
  with Cons.IH [of ws'] show ?case by (cases w) auto
qed

lemma windows_complete:
  assumes "complete st" "1 \<le> sequenceLength st" "0 \<le> predictionHorizon st"
  shows "\<exists>samples. windows st = Inr samples
           \<and> int (length samples)
               = max 0 (int (length (dates st)) - sequenceLength st - predictionHorizon st + 1)"
proof -
  let ?as = "[sequenceLength st - 1 .. int (length (dates st)) - predictionHorizon st - 1]"
  have "\<forall>a \<in> set ?as. \<exists>w. windowAt st a = Inr (Some w)"
  proof
    fix a assume "a \<in> set ?as"
    then have "sequenceLength st - 1 \<le> a" "a \<le> int (length (dates st)) - predictionHorizon st - 1"
      by auto
    from windowAt_ok [OF assms this] show "\<exists>w. windowAt st a = Inr (Some w)" by blast
  qed
  from anchorLoop_all [OF this] obtain ws where "anchorLoop st ?as = Inr ws"
    "length ws = length ?as" by blast
  then show ?thesis by (auto simp: windows_def)
qed

lemma windows_bound:
  assumes "windows st = Inr samples"
  shows "int (length samples)
           \<le> max 0 (int (length (dates st)) - sequenceLength st - predictionHorizon st + 1)"
proof -
  let ?as = "[sequenceLength st - 1 .. int (length (dates st)) - predictionHorizon st - 1]"
  from assms have "anchorLoop st ?as = Inr samples" by (simp add: windows_def)
  then have "length samples \<le> length ?as" by (rule anchorLoop_length)
  then show ?thesis by auto
qed

lemma tensorSlice_take [simp]: "tensorSlice 0 k xs = take k xs"
  by (simp add: tensorSlice_def)

lemma tensorSlice_drop [simp]: "tensorSlice k (length xs - k) xs = drop k xs"
  by (simp add: tensorSlice_def)

lemma tensorSlice_drop_map [simp]:
  "tensorSlice k (length xs - k) (map f xs) = drop k (map f xs)"
  by (simp add: tensorSlice_def)

lemma createWindowedDataset_Inr:
  assumes "createWindowedDataset st = Inr ds"
  shows "\<exists>samples q. windows st = Inr samples \<and> 2 \<le> length samples
           \<and> mathMin [Fin (of_nat (length samples) - 1),
                       mathMax [Fin 1, mathFloor (fmul (lengthNum samples) (trainSplit st))]] = Fin q
           \<and> splitIndex ds = nat \<lfloor>q\<rfloor>
           \<and> X_train ds = map fst (take (splitIndex ds) samples)
           \<and> X_test ds = map fst (drop (splitIndex ds) samples)
           \<and> y_train ds = map (fst \<circ> snd) (take (splitIndex ds) samples)
           \<and> y_test ds = map (fst \<circ> snd) (drop (splitIndex ds) samples)
           \<and> sampleDates ds = map (snd \<circ> snd) samples"
proof -
  from assms obtain samples where w: "windows st = Inr samples"
    by (cases "windows st") (simp_all add: createWindowedDataset_def)
  from assms w have n: "2 \<le> length samples"
    by (simp add: createWindowedDataset_def Let_def split: if_splits)
  let ?split = "mathMin [Fin (of_nat (length samples) - 1),
                       mathMax [Fin 1, mathFloor (fmul (lengthNum samples) (trainSplit st))]]"
  from assms w have g: "\<not> sequenceLength st < 0"
    "\<not> int (length (symbols st)) * predictionHorizon st < 0"
    by (simp_all add: createWindowedDataset_def Let_def split: if_splits)
  from n have ne: "samples \<noteq> []" "\<not> length samples < 2" by auto
  have cw: "createWindowedDataset st =
      (case ?split of
         Fin q \<Rightarrow> Inr \<lparr> X_train = take (nat \<lfloor>q\<rfloor>) (map fst samples),
                          X_test = drop (nat \<lfloor>q\<rfloor>) (map fst samples),
                          y_train = take (nat \<lfloor>q\<rfloor>) (map (fst \<circ> snd) samples),
                          y_test = drop (nat \<lfloor>q\<rfloor>) (map (fst \<circ> snd) samples),
                          sampleDates = map (snd \<circ> snd) samples,
                          splitIndex = nat \<lfloor>q\<rfloor> \<rparr>
       | _ \<Rightarrow> Inl TensorError)"
    by (simp add: createWindowedDataset_def w ne g Let_def lengthNum_def
        del: mathMin.simps mathMax.simps)
  from assms cw obtain q where q: "?split = Fin q"
    by (cases ?split) (simp_all del: mathMin.simps mathMax.simps)
  from assms cw q have ds: "ds = \<lparr> X_train = take (nat \<lfloor>q\<rfloor>) (map fst samples),
                                   X_test = drop (nat \<lfloor>q\<rfloor>) (map fst samples),
                                   y_train = take (nat \<lfloor>q\<rfloor>) (map (fst \<circ> snd) samples),
                                   y_test = drop (nat \<lfloor>q\<rfloor>) (map (fst \<circ> snd) samples),
                                   sampleDates = map (snd \<circ> snd) samples,
                                   splitIndex = nat \<lfloor>q\<rfloor> \<rparr>"
    by (simp del: mathMin.simps mathMax.simps)
  show ?thesis
    by (rule exI [of _ samples], rule exI [of _ q])
      (simp add: w n q ds take_map drop_map del: mathMin.simps mathMax.simps)
qed

lemma clamp_split:
  assumes "2 \<le> (N::nat)" "mathMin [Fin (of_nat N - 1), mathMax [Fin 1, x]] = Fin q"
  shows "1 \<le> q \<and> q \<le> of_nat N - 1 \<and> (\<forall>r. x = Fin r \<longrightarrow> q = min (of_nat N - 1) (max 1 r))"
proof -
  from assms(1) have n: "(1::rat) \<le> of_nat N - 1" by simp
  show ?thesis
  proof (cases x)
    case (Fin r)
    with assms(2) n show ?thesis by (auto simp: Let_def split: if_splits)
  next
    case PInf
    with assms(2) n show ?thesis by (auto simp: Let_def split: if_splits)
  next
    case NInf
    with assms(2) n show ?thesis by (auto simp: Let_def split: if_splits)
  next
    case NaN
    with assms(2) show ?thesis by (simp add: Let_def)
  qed
qed

lemma anchorLoop_dates:
  "anchorLoop st anchors = Inr ws
   \<Longrightarrow> map (snd \<circ> snd) ws
         = map (arrayAt (dates st)) (filter (\<lambda>a. \<exists>w. windowAt st a = Inr (Some w)) anchors)"
proof (induction anchors arbitrary: ws)
  case Nil
  then show ?case by simp
next
  case (Cons a anchors)
  from Cons.prems obtain w ws' where w: "windowAt st a = Inr w"
    and r: "anchorLoop st anchors = Inr ws'"
    and ws: "ws = (case w of None \<Rightarrow> ws' | Some s \<Rightarrow> s # ws')"
    by (auto split: sum.splits)
  show ?case
  proof (cases w)
    case None
    with w ws Cons.IH [OF r] show ?thesis by simp
  next
    case (Some s)
    with w have "snd (snd s) = arrayAt (dates st) a"
      by (auto simp: windowAt_def split: sum.splits option.splits)
    with Some w ws Cons.IH [OF r] show ?thesis by (simp del: split_paired_Ex)
  qed
qed

lemma sample_dates_ordered:
  assumes w: "windows st = Inr samples" and s: "sorted (dates st)"
    and l: "1 \<le> sequenceLength st" and h: "0 \<le> predictionHorizon st"
    and ij: "i \<le> j" "j < length samples"
  shows "\<exists>a b. map (snd \<circ> snd) samples ! i = Some a \<and> map (snd \<circ> snd) samples ! j = Some b
           \<and> a \<le> b"
proof -
  let ?as = "[sequenceLength st - 1 .. int (length (dates st)) - predictionHorizon st - 1]"
  let ?fs = "filter (\<lambda>a. \<exists>w. windowAt st a = Inr (Some w)) ?as"
  from w have d: "map (snd \<circ> snd) samples = map (arrayAt (dates st)) ?fs"
    by (simp add: windows_def anchorLoop_dates)
  have len: "length ?fs = length samples"
  proof -
    have "length (map (arrayAt (dates st)) ?fs) = length (map (snd \<circ> snd) samples)"
      by (simp only: d)
    then show ?thesis by (simp only: length_map)
  qed
  have srt: "sorted ?fs" by (rule sorted_wrt_filter) simp
  from ij len have i: "i < length ?fs" and j: "j < length ?fs" by auto
  from sorted_nth_mono [OF srt ij(1) j] have le: "?fs ! i \<le> ?fs ! j" .
  have rng: "\<And>k. k < length ?fs \<Longrightarrow> 0 \<le> ?fs ! k \<and> ?fs ! k < int (length (dates st))"
  proof -
    fix k assume "k < length ?fs"
    then have "?fs ! k \<in> set ?fs" by (rule nth_mem)
    then have "?fs ! k \<in> set ?as" by simp
    with l h show "0 \<le> ?fs ! k \<and> ?fs ! k < int (length (dates st))" by auto
  qed
  from rng [OF i] rng [OF j] le have n: "nat (?fs ! i) \<le> nat (?fs ! j)"
    "nat (?fs ! j) < length (dates st)" "nat (?fs ! i) < length (dates st)" by auto
  from sorted_nth_mono [OF s n(1,2)] have "dates st ! nat (?fs ! i) \<le> dates st ! nat (?fs ! j)" .
  moreover have "map (snd \<circ> snd) samples ! i = Some (dates st ! nat (?fs ! i))"
    using rng [OF i] i n by (simp add: d arrayAt_nth)
  moreover have "map (snd \<circ> snd) samples ! j = Some (dates st ! nat (?fs ! j))"
    using rng [OF j] j n by (simp add: d arrayAt_nth)
  ultimately show ?thesis by blast
qed

lemma clamp_finite:
  "x \<noteq> NaN \<Longrightarrow> \<exists>q. mathMin [Fin a, mathMax [Fin 1, x]] = Fin q"
  by (cases x) (auto simp: Let_def)

lemma createWindowedDataset_returns:
  assumes w: "windows st = Inr samples" and n: "2 \<le> length samples"
    and t: "trainSplit st \<noteq> NaN"
    and s: "0 \<le> sequenceLength st" "0 \<le> predictionHorizon st"
  shows "\<exists>ds. createWindowedDataset st = Inr ds \<and> sampleDates ds = map (snd \<circ> snd) samples"
proof -
  let ?x = "mathFloor (fmul (lengthNum samples) (trainSplit st))"
  from n have ne: "samples \<noteq> []" "\<not> length samples < 2" by auto
  from s have g: "\<not> sequenceLength st < 0"
    "\<not> int (length (symbols st)) * predictionHorizon st < 0"
    by (simp_all add: not_less)
  from n have nz: "(of_nat (length samples) :: rat) \<noteq> 0" by auto
  have f: "fmul (lengthNum samples) (trainSplit st) \<noteq> NaN"
    using t nz by (cases "trainSplit st") (auto simp: lengthNum_def signedInf_def)
  then have "?x \<noteq> NaN" by (cases "fmul (lengthNum samples) (trainSplit st)") simp_all
  from clamp_finite [OF this, of "of_nat (length samples) - 1"] obtain q
    where q: "mathMin [Fin (of_nat (length samples) - 1), mathMax [Fin 1, ?x]] = Fin q" by blast
  show ?thesis
    by (simp add: createWindowedDataset_def w ne g Let_def lengthNum_def q [unfolded lengthNum_def]
        del: mathMin.simps mathMax.simps)
qed

lemma complete_exampleLoader: "complete exampleLoader"
  by (simp add: complete_def exampleLoader_def)

lemma complete_shortLoader: "complete shortLoader"
  by (simp add: complete_def shortLoader_def newDataLoader_def FEATURE_KEYS_def)

lemma windows_shortLoader: "windows shortLoader = Inr []"
  by (simp add: windows_def shortLoader_def newDataLoader_def)

lemma buildFeatureCube_dates:
  "sorted (dates (buildFeatureCube st)) \<and> distinct (dates (buildFeatureCube st))
   \<and> sorted (symbols (buildFeatureCube st)) \<and> distinct (symbols (buildFeatureCube st))"
  by (simp add: buildFeatureCube_def Let_def)

text \<open>
  Claim C1, as the code has it. With \<open>D\<close> dates, sequence length \<open>L \<ge> 1\<close>, horizon
  \<open>H \<ge> 0\<close> and no missing value, the anchor loop produces exactly
  \<open>max 0 (D - L - H + 1)\<close> samples; on every input it produces at most that many; every
  dataset that \<open>createWindowedDataset\<close> returns has at least 2 and at most
  \<open>D - L - H + 1\<close> samples; and with no missing value, a train fraction that is not NaN
  and \<open>D - L - H + 1 \<ge> 2\<close> it does return a dataset, of exactly \<open>D - L - H + 1\<close>
  samples.
\<close>

theorem window_count:
  "(complete st \<and> 1 \<le> sequenceLength st \<and> 0 \<le> predictionHorizon st \<longrightarrow>
      (\<exists>samples. windows st = Inr samples
         \<and> int (length samples)
             = max 0 (int (length (dates st)) - sequenceLength st - predictionHorizon st + 1)))
   \<and> (\<forall>samples. windows st = Inr samples \<longrightarrow>
         int (length samples)
           \<le> max 0 (int (length (dates st)) - sequenceLength st - predictionHorizon st + 1))
   \<and> (\<forall>ds. createWindowedDataset st = Inr ds \<longrightarrow>
         (\<exists>samples. windows st = Inr samples \<and> length (sampleDates ds) = length samples)
         \<and> 2 \<le> length (sampleDates ds)
         \<and> int (length (sampleDates ds))
             \<le> int (length (dates st)) - sequenceLength st - predictionHorizon st + 1)
   \<and> (complete st \<and> 1 \<le> sequenceLength st \<and> 0 \<le> predictionHorizon st
        \<and> trainSplit st \<noteq> NaN
        \<and> 2 \<le> int (length (dates st)) - sequenceLength st - predictionHorizon st + 1 \<longrightarrow>
         (\<exists>ds. createWindowedDataset st = Inr ds
            \<and> int (length (sampleDates ds))
                = int (length (dates st)) - sequenceLength st - predictionHorizon st + 1))"
proof (intro conjI impI allI)
  assume "complete st \<and> 1 \<le> sequenceLength st \<and> 0 \<le> predictionHorizon st"
  then show "\<exists>samples. windows st = Inr samples
         \<and> int (length samples)
             = max 0 (int (length (dates st)) - sequenceLength st - predictionHorizon st + 1)"
    by (intro windows_complete) auto
next
  fix samples assume "windows st = Inr samples"
  then show "int (length samples)
           \<le> max 0 (int (length (dates st)) - sequenceLength st - predictionHorizon st + 1)"
    by (rule windows_bound)
next
  fix ds assume a: "createWindowedDataset st = Inr ds"
  from createWindowedDataset_Inr [OF a] obtain samples where
    w: "windows st = Inr samples" and n: "2 \<le> length samples"
    and d: "sampleDates ds = map (snd \<circ> snd) samples" by blast
  from d have l: "length (sampleDates ds) = length samples" by simp
  from w l show "\<exists>samples. windows st = Inr samples \<and> length (sampleDates ds) = length samples"
    by blast
  from n l show "2 \<le> length (sampleDates ds)" by simp
  from windows_bound [OF w] n l
  show "int (length (sampleDates ds))
             \<le> int (length (dates st)) - sequenceLength st - predictionHorizon st + 1"
    by auto
next
  assume a: "complete st \<and> 1 \<le> sequenceLength st \<and> 0 \<le> predictionHorizon st
        \<and> trainSplit st \<noteq> NaN
        \<and> 2 \<le> int (length (dates st)) - sequenceLength st - predictionHorizon st + 1"
  then have "complete st" "1 \<le> sequenceLength st" "0 \<le> predictionHorizon st" by auto
  from windows_complete [OF this] obtain samples where w: "windows st = Inr samples"
    and l: "int (length samples)
             = max 0 (int (length (dates st)) - sequenceLength st - predictionHorizon st + 1)"
    by blast
  from a l have n: "2 \<le> length samples" by auto
  from a have t: "trainSplit st \<noteq> NaN" by simp
  from a have s: "0 \<le> sequenceLength st" "0 \<le> predictionHorizon st" by simp_all
  from createWindowedDataset_returns [OF w n t s] obtain ds
    where "createWindowedDataset st = Inr ds" "sampleDates ds = map (snd \<circ> snd) samples" by blast
  with l a show "\<exists>ds. createWindowedDataset st = Inr ds
            \<and> int (length (sampleDates ds))
                = int (length (dates st)) - sequenceLength st - predictionHorizon st + 1"
    by auto
qed

theorem window_count_witness:
  "(\<exists>samples. windows exampleLoader = Inr samples \<and> int (length samples) = 3)
   \<and> (\<exists>ds. createWindowedDataset exampleLoader = Inr ds \<and> int (length (sampleDates ds)) = 3)"
proof -
  have c: "complete exampleLoader" by (rule complete_exampleLoader)
  have p: "1 \<le> sequenceLength exampleLoader" "0 \<le> predictionHorizon exampleLoader"
    "trainSplit exampleLoader \<noteq> NaN"
    "int (length (dates exampleLoader)) - sequenceLength exampleLoader
       - predictionHorizon exampleLoader + 1 = 3"
    by (simp_all add: exampleLoader_def)
  from window_count [of exampleLoader] c p show ?thesis by simp
qed

text \<open>The count is not \<open>D - L - H + 1\<close> when that is negative: with the default lengths
  12 and 3 and a complete series of two dates, the loop produces no sample (0 is more
  than \<open>2 - 12 - 3 + 1 = -12\<close>) and \<open>createWindowedDataset\<close> throws.\<close>

theorem window_count_counterexample:
  "complete shortLoader \<and> windows shortLoader = Inr []
   \<and> createWindowedDataset shortLoader = Inl NoSequences
   \<and> int (length (dates shortLoader)) - sequenceLength shortLoader
       - predictionHorizon shortLoader + 1 = - 12"
  by (simp add: complete_shortLoader windows_shortLoader createWindowedDataset_def)
    (simp add: shortLoader_def newDataLoader_def)

text \<open>
  Claim C3. A dataset that \<open>createWindowedDataset\<close> returns has \<open>N \<ge> 2\<close> samples;
  its split index lies between 1 and \<open>N - 1\<close> and is
  \<open>min (N - 1) (max 1 \<lfloor>N \<cdot> p\<rfloor>)\<close> for a finite train fraction \<open>p\<close> (the product being the
  JavaScript one, \<open>rnd (N * p)\<close>); the train tensors are the first \<open>splitIndex\<close>
  samples and the test tensors the remaining ones, in the order of the anchor loop; and
  when the dates are sorted (as \<open>buildFeatureCube\<close> leaves them) and \<open>L \<ge> 1\<close>,
  \<open>H \<ge> 0\<close>, every train anchor date is at most every test anchor date.
\<close>

theorem chronological_split:
  assumes "createWindowedDataset st = Inr ds"
  shows "\<exists>samples. windows st = Inr samples \<and> 2 \<le> length samples
      \<and> 1 \<le> splitIndex ds \<and> splitIndex ds \<le> length samples - 1
      \<and> (\<forall>p r. trainSplit st = Fin p \<and> rnd (of_nat (length samples) * p) = Fin r
            \<longrightarrow> int (splitIndex ds) = min (int (length samples) - 1) (max 1 \<lfloor>r\<rfloor>))
      \<and> X_train ds = map fst (take (splitIndex ds) samples)
      \<and> X_test ds = map fst (drop (splitIndex ds) samples)
      \<and> y_train ds = map (fst \<circ> snd) (take (splitIndex ds) samples)
      \<and> y_test ds = map (fst \<circ> snd) (drop (splitIndex ds) samples)
      \<and> sampleDates ds = map (snd \<circ> snd) samples
      \<and> (sorted (dates st) \<and> 1 \<le> sequenceLength st \<and> 0 \<le> predictionHorizon st
           \<longrightarrow> (\<forall>i j. i < splitIndex ds \<and> splitIndex ds \<le> j \<and> j < length samples
                  \<longrightarrow> (\<exists>a b. sampleDates ds ! i = Some a \<and> sampleDates ds ! j = Some b
                         \<and> a \<le> b)))"
proof -
  from createWindowedDataset_Inr [OF assms] obtain samples q where
    w: "windows st = Inr samples" and n: "2 \<le> length samples"
    and q: "mathMin [Fin (of_nat (length samples) - 1),
                     mathMax [Fin 1, mathFloor (fmul (lengthNum samples) (trainSplit st))]] = Fin q"
    and k: "splitIndex ds = nat \<lfloor>q\<rfloor>"
    and parts: "X_train ds = map fst (take (splitIndex ds) samples)"
      "X_test ds = map fst (drop (splitIndex ds) samples)"
      "y_train ds = map (fst \<circ> snd) (take (splitIndex ds) samples)"
      "y_test ds = map (fst \<circ> snd) (drop (splitIndex ds) samples)"
    and d: "sampleDates ds = map (snd \<circ> snd) samples"
    by blast
  note c = clamp_split [OF n q]
  from c have q1: "1 \<le> q" and qn: "q \<le> of_nat (length samples) - 1" by auto
  from q1 have f1: "1 \<le> \<lfloor>q\<rfloor>" by (simp add: le_floor_iff)
  have "q \<le> of_int (int (length samples) - 1)" using qn by simp
  then have fn: "\<lfloor>q\<rfloor> \<le> int (length samples) - 1"
    using floor_mono [of q "of_int (int (length samples) - 1)"] by (simp only: floor_of_int)
  have b: "1 \<le> splitIndex ds" "splitIndex ds \<le> length samples - 1"
    unfolding k using f1 fn by linarith+
  have formula: "\<forall>p r. trainSplit st = Fin p \<and> rnd (of_nat (length samples) * p) = Fin r
            \<longrightarrow> int (splitIndex ds) = min (int (length samples) - 1) (max 1 \<lfloor>r\<rfloor>)"
  proof (intro allI impI)
    fix p r assume a: "trainSplit st = Fin p \<and> rnd (of_nat (length samples) * p) = Fin r"
    then have "mathFloor (fmul (lengthNum samples) (trainSplit st)) = Fin (of_int \<lfloor>r\<rfloor>)"
      by (simp add: lengthNum_def)
    with c have "q = min (of_nat (length samples) - 1) (max 1 (of_int \<lfloor>r\<rfloor>))" by blast
    also have "\<dots> = of_int (min (int (length samples) - 1) (max 1 \<lfloor>r\<rfloor>))"
      by (simp add: of_int_min of_int_max)
    finally have "\<lfloor>q\<rfloor> = min (int (length samples) - 1) (max 1 \<lfloor>r\<rfloor>)"
      by (simp only: floor_of_int)
    moreover from k f1 have "int (splitIndex ds) = \<lfloor>q\<rfloor>" by linarith
    ultimately show "int (splitIndex ds) = min (int (length samples) - 1) (max 1 \<lfloor>r\<rfloor>)"
      by (simp only:)
  qed
  have order: "sorted (dates st) \<and> 1 \<le> sequenceLength st \<and> 0 \<le> predictionHorizon st
           \<longrightarrow> (\<forall>i j. i < splitIndex ds \<and> splitIndex ds \<le> j \<and> j < length samples
                  \<longrightarrow> (\<exists>a b. sampleDates ds ! i = Some a \<and> sampleDates ds ! j = Some b
                         \<and> a \<le> b))"
  proof (intro impI allI)
    fix i j
    assume s: "sorted (dates st) \<and> 1 \<le> sequenceLength st \<and> 0 \<le> predictionHorizon st"
      and ij: "i < splitIndex ds \<and> splitIndex ds \<le> j \<and> j < length samples"
    then have "i \<le> j" "j < length samples" by auto
    from sample_dates_ordered [OF w _ _ _ this] s d
    show "\<exists>a b. sampleDates ds ! i = Some a \<and> sampleDates ds ! j = Some b \<and> a \<le> b"
      by simp
  qed
  from w n b formula parts d order show ?thesis by blast
qed

lemma windows_exampleLoader:
  "windows exampleLoader
     = Inr [([[Fin 0], [Fin (1 / 2)]], [Fin 0], Some 2),
            ([[Fin (1 / 2)], [Fin 0]], [Fin 1], Some 3),
            ([[Fin 0], [Fin 1]], [Fin 0], Some 4)]"
  by (simp add: windows_def exampleLoader_def upto.simps windowAt_def sequenceAt_def
      timestepAt_def featureValue_def flatten_def targetVectorAt_def symbolTargets_def
      arrayAt_def jsGreater_def)

theorem chronological_split_witness:
  "\<exists>ds samples. createWindowedDataset exampleLoader = Inr ds
      \<and> windows exampleLoader = Inr samples \<and> length samples = 3
      \<and> splitIndex ds = 1
      \<and> X_train ds = map fst (take 1 samples) \<and> X_test ds = map fst (drop 1 samples)
      \<and> y_train ds = [[Fin 0]] \<and> y_test ds = [[Fin 1], [Fin 0]]
      \<and> sampleDates ds = [Some 2, Some 3, Some 4]"
proof -
  let ?samples = "[([[Fin 0], [Fin (1 / 2)]], [Fin 0], Some 2),
                   ([[Fin (1 / 2)], [Fin 0]], [Fin 1], Some 3),
                   ([[Fin 0], [Fin 1]], [Fin 0], Some (4::int))] :: sample list"
  have w: "windows exampleLoader = Inr ?samples" by (rule windows_exampleLoader)
  have t: "trainSplit exampleLoader \<noteq> NaN" by (simp add: exampleLoader_def)
  have s: "0 \<le> sequenceLength exampleLoader" "0 \<le> predictionHorizon exampleLoader"
    by (simp_all add: exampleLoader_def)
  from createWindowedDataset_returns [OF w _ t s] obtain ds
    where ds: "createWindowedDataset exampleLoader = Inr ds" by auto
  from chronological_split [OF ds] w have
    f: "\<forall>p r. trainSplit exampleLoader = Fin p \<and> rnd (of_nat (length ?samples) * p) = Fin r
          \<longrightarrow> int (splitIndex ds) = min (int (length ?samples) - 1) (max 1 \<lfloor>r\<rfloor>)"
    and parts: "X_train ds = map fst (take (splitIndex ds) ?samples)"
      "X_test ds = map fst (drop (splitIndex ds) ?samples)"
      "y_train ds = map (fst \<circ> snd) (take (splitIndex ds) ?samples)"
      "y_test ds = map (fst \<circ> snd) (drop (splitIndex ds) ?samples)"
      "sampleDates ds = map (snd \<circ> snd) ?samples"
    by auto
  have "rnd (3 / 2) = Fin (3 / 2)" using rnd_exact [of "3 / 2" 3 "- 1"] by simp
  moreover have "trainSplit exampleLoader = Fin (1 / 2)" by (simp add: exampleLoader_def)
  moreover have "(of_nat (length ?samples) :: rat) * (1 / 2) = 3 / 2" by simp
  ultimately have "int (splitIndex ds) = min (int (length ?samples) - 1) (max 1 \<lfloor>3 / 2 :: rat\<rfloor>)"
    using f [rule_format, of "1 / 2" "3 / 2"] by (simp only:)
  moreover have "\<lfloor>3 / 2 :: rat\<rfloor> = 1" by (rule floor_unique) simp_all
  ultimately have k: "splitIndex ds = 1" by simp
  from ds w k parts show ?thesis by simp
qed

section \<open>Properties of the feature cube\<close>

text \<open>
  Claim C9, as the code has it. \<open>buildFeatureCube\<close> has no failure: on an empty row
  collection it leaves no dates, no symbols and two empty cubes. The failure comes from
  \<open>createWindowedDataset\<close>, which finds no window: \<open>prepareDataset\<close> fails with
  \<^verbatim>\<open>Unable to construct any sequences\<close> (for a sequence length of at least 1 and a
  horizon of at least 0).
\<close>

theorem buildFeatureCube_empty_rows:
  "rows st = [] \<Longrightarrow>
     dates (buildFeatureCube st) = [] \<and> symbols (buildFeatureCube st) = []
     \<and> featureCube (buildFeatureCube st) = Map.empty
     \<and> normalisedCube (buildFeatureCube st) = Map.empty
     \<and> (1 \<le> sequenceLength st \<and> 0 \<le> predictionHorizon st
          \<longrightarrow> prepareDataset st = Inl NoSequences)"
  by (simp add: buildFeatureCube_def prepareDataset_def createWindowedDataset_def windows_def)

theorem buildFeatureCube_empty_rows_witness:
  "dates (buildFeatureCube (newDataLoader None None None)) = []
   \<and> symbols (buildFeatureCube (newDataLoader None None None)) = []
   \<and> featureCube (buildFeatureCube (newDataLoader None None None)) = Map.empty
   \<and> normalisedCube (buildFeatureCube (newDataLoader None None None)) = Map.empty
   \<and> prepareDataset (newDataLoader None None None) = Inl NoSequences"
proof -
  have r: "rows (newDataLoader None None None) = []" by (simp add: newDataLoader_def)
  from buildFeatureCube_empty_rows [OF r] show ?thesis by (simp add: newDataLoader_def)
qed

text \<open>On a new loader, which has no rows, \<open>buildFeatureCube\<close> returns: the state is the
  one it got, with the empty cube.\<close>

theorem buildFeatureCube_empty_rows_counterexample:
  "buildFeatureCube (newDataLoader None None None) = newDataLoader None None None
   \<and> featureCube (newDataLoader None None None) = Map.empty
   \<and> dates (newDataLoader None None None) = []"
  by (simp add: buildFeatureCube_def newDataLoader_def)

section \<open>Properties of the labels\<close>

lemma collect_Some:
  "collect f xs = Inr (Some ys)
   \<Longrightarrow> length ys = length xs \<and> (\<forall>i < length xs. f (xs ! i) = Inr (Some (ys ! i)))"
proof (induction xs arbitrary: ys)
  case Nil
  then show ?case by simp
next
  case (Cons x xs)
  from Cons.prems obtain y ys' where y: "f x = Inr (Some y)" and r: "collect f xs = Inr (Some ys')"
    and ys: "ys = y # ys'"
    by (auto split: sum.splits option.splits)
  from Cons.IH [OF r] y ys show ?case by (auto simp: nth_Cons split: nat.splits)
qed

lemma upto_nth: "i < length [a..b] \<Longrightarrow> [a..b] ! i = a + int i"
proof -
  assume "i < length [a..b]"
  then have "a + int i \<le> b" by simp
  then show ?thesis by (rule nth_upto)
qed

lemma symbolTargets_Some:
  assumes "symbolTargets st anchor symb = Inr (Some tv)"
  shows "\<exists>rf b. featureCube st symb = Some rf \<and> arrayAt (rf Close) anchor = Some b \<and> isFinite b
           \<and> length tv = nat (predictionHorizon st)
           \<and> (\<forall>k. 1 \<le> k \<and> k \<le> predictionHorizon st \<longrightarrow>
                 (\<exists>f. arrayAt (rf Close) (anchor + k) = Some f \<and> isFinite f
                    \<and> tv ! nat (k - 1) = (if jsGreater f b then Fin 1 else Fin 0)))"
proof -
  from assms obtain rf where rf: "featureCube st symb = Some rf"
    by (cases "featureCube st symb") (simp_all add: symbolTargets_def)
  from assms rf obtain b where b: "arrayAt (rf Close) anchor = Some b"
    by (cases "arrayAt (rf Close) anchor") (simp_all add: symbolTargets_def)
  from assms rf b have fb: "isFinite b"
    by (cases "isFinite b") (simp_all add: symbolTargets_def)
  let ?f = "\<lambda>horizon. case arrayAt (rf Close) (anchor + horizon) of
                                 None \<Rightarrow> Inr None
                               | Some futureClose \<Rightarrow>
                                   if \<not> isFinite futureClose then Inr None
                                   else Inr (Some (if jsGreater futureClose b
                                                   then Fin 1 else Fin 0))"
  from assms rf b fb have c: "collect ?f [1..predictionHorizon st] = Inr (Some tv)"
    by (simp add: symbolTargets_def)
  note cs = collect_Some [OF c]
  from cs have len: "length tv = nat (predictionHorizon st)" by simp
  have each: "\<exists>f. arrayAt (rf Close) (anchor + k) = Some f \<and> isFinite f
                    \<and> tv ! nat (k - 1) = (if jsGreater f b then Fin 1 else Fin 0)"
    if k: "1 \<le> k \<and> k \<le> predictionHorizon st" for k
  proof -
    from k have i: "nat (k - 1) < length [1..predictionHorizon st]" by simp
    from upto_nth [OF i] k have e: "[1..predictionHorizon st] ! nat (k - 1) = k" by simp
    note n = cs [THEN conjunct2, rule_format, OF i]
    have v: "(?f k :: error + jsnum option) = Inr (Some (tv ! nat (k - 1)))"
      using n unfolding e .
    show ?thesis
    proof (cases "arrayAt (rf Close) (anchor + k)")
      case None
      with v show ?thesis by simp
    next
      case (Some f)
      with v have "isFinite f" by (cases "isFinite f") simp_all
      with v Some show ?thesis by simp
    qed
  qed
  show ?thesis
    apply (rule exI [of _ rf])
    apply (rule exI [of _ b])
    using rf b fb len each by simp
qed

lemma targetVectorAt_Some:
  assumes "targetVectorAt st anchor = Inr (Some tv)"
  shows "\<exists>tvs. tv = concat tvs \<and> length tvs = length (symbols st)
           \<and> (\<forall>i < length (symbols st).
                 symbolTargets st anchor (symbols st ! i) = Inr (Some (tvs ! i)))"
proof -
  from assms obtain tvs where c: "collect (symbolTargets st anchor) (symbols st) = Inr (Some tvs)"
    and tv: "tv = concat tvs"
    by (auto simp: targetVectorAt_def flatten_def split: sum.splits option.splits)
  from collect_Some [OF c] tv show ?thesis by blast
qed

text \<open>
  The labels of \<open>createWindowedDataset\<close>: an emitted window has, for the symbol at
  position \<open>i\<close> and every offset \<open>1 \<le> k \<le> H\<close>, finite raw closes at the anchor and at
  \<open>anchor + k\<close>, and its label entry \<open>i \<cdot> H + (k - 1)\<close> (entry \<open>k - 1\<close> of the symbol's
  block) is 1 exactly when the future close is greater. So a window with a non-finite
  close at the anchor or at a future offset is never emitted.
\<close>

lemma windowAt_labels:
  assumes "windowAt st anchor = Inr (Some (sq, tv, d))" and "i < length (symbols st)"
    and "1 \<le> k" "k \<le> predictionHorizon st"
  shows "\<exists>tvs rf b f. tv = concat tvs \<and> length tvs = length (symbols st)
           \<and> length (tvs ! i) = nat (predictionHorizon st)
           \<and> featureCube st (symbols st ! i) = Some rf
           \<and> arrayAt (rf Close) anchor = Some b \<and> isFinite b
           \<and> arrayAt (rf Close) (anchor + k) = Some f \<and> isFinite f
           \<and> tvs ! i ! nat (k - 1) = (if jsGreater f b then Fin 1 else Fin 0)"
proof -
  from assms(1) have "targetVectorAt st anchor = Inr (Some tv)"
    by (auto simp: windowAt_def split: sum.splits option.splits)
  from targetVectorAt_Some [OF this] obtain tvs where tv: "tv = concat tvs"
    and l: "length tvs = length (symbols st)"
    and s: "\<forall>i < length (symbols st).
                 symbolTargets st anchor (symbols st ! i) = Inr (Some (tvs ! i))" by blast
  from s assms(2) have "symbolTargets st anchor (symbols st ! i) = Inr (Some (tvs ! i))" by simp
  from symbolTargets_Some [OF this] assms(3,4) tv l show ?thesis by blast
qed

lemma windowAt_skips_missing_close:
  assumes "featureCube st symb = Some rf" "symb \<in> set (symbols st)"
    and "\<not> isFiniteV (arrayAt (rf Close) anchor)
         \<or> (\<exists>k. 1 \<le> k \<and> k \<le> predictionHorizon st \<and> \<not> isFiniteV (arrayAt (rf Close) (anchor + k)))"
  shows "\<forall>w. windowAt st anchor \<noteq> Inr (Some w)"
proof (intro allI notI)
  fix w assume w: "windowAt st anchor = Inr (Some w)"
  obtain sq tv d where "w = (sq, tv, d)" by (rule prod_cases3)
  with w have "targetVectorAt st anchor = Inr (Some tv)"
    by (auto simp: windowAt_def split: sum.splits option.splits)
  from targetVectorAt_Some [OF this] obtain tvs where
    s: "\<forall>i < length (symbols st).
                 symbolTargets st anchor (symbols st ! i) = Inr (Some (tvs ! i))" by blast
  from assms(2) obtain i where "i < length (symbols st)" "symbols st ! i = symb"
    by (auto simp: in_set_conv_nth)
  with s have "symbolTargets st anchor symb = Inr (Some (tvs ! i))" by auto
  from symbolTargets_Some [OF this] obtain rf' b where
    rf': "featureCube st symb = Some rf'"
    and b: "arrayAt (rf' Close) anchor = Some b" "isFinite b"
    and f: "\<forall>k. 1 \<le> k \<and> k \<le> predictionHorizon st \<longrightarrow>
                 (\<exists>f. arrayAt (rf' Close) (anchor + k) = Some f \<and> isFinite f
                    \<and> tvs ! i ! nat (k - 1) = (if jsGreater f b then Fin 1 else Fin 0))"
    by blast
  from rf' assms(1) have e: "rf' = rf" by simp
  from b e have "isFiniteV (arrayAt (rf Close) anchor)" by simp
  moreover from f e have "\<forall>k. 1 \<le> k \<and> k \<le> predictionHorizon st
                 \<longrightarrow> isFiniteV (arrayAt (rf Close) (anchor + k))" by fastforce
  ultimately show False using assms(3) by blast
qed

lemma upto_12_12: "[12..12::int] = [12]"
  by (simp add: upto.simps)

lemma upto_1_3: "[1..3::int] = [1, 2, 3]"
  by (simp add: upto.simps)

lemma upto_0_11: "[0..11::int] = [0, 1, 2, 3, 4, 5, 6, 7, 8, 9, 10, 11]"
  by (simp add: upto.simps)

text \<open>
  Claim C2 fails on \<open>createSequences\<close>, the windowing of the earlier loader. Symbol \<open>B\<close>
  has no close (\<^verbatim>\<open>null\<close>) at the anchor 12 and at the first future offset; the window is
  emitted all the same, and its three label entries for \<open>B\<close> are the default 0, although
  the closes of \<open>B\<close> at offsets 2 and 3 are 5 and 6.
\<close>

theorem createSequences_defaults_missing_labels:
  "(case featureData legacyExample ''B'' of
      None \<Rightarrow> False
    | Some fs \<Rightarrow> readAt (legacyClose fs) 12 = Null \<and> readAt (legacyClose fs) 13 = Null
                \<and> readAt (legacyClose fs) 14 = Num (Fin 5)
                \<and> readAt (legacyClose fs) 15 = Num (Fin 6))
   \<and> (case createSequences legacyExample of Inl e \<Rightarrow> [] | Inr samples \<Rightarrow> map snd samples)
       = [[Fin 1, Fin 1, Fin 1, Fin 0, Fin 0, Fin 0]]"
  by (simp add: createSequences_def legacyExample_def legacyTarget_def legacyTimeStep_def
      readAt_def arrayAt_def jsGreater_def upto_12_12 upto_1_3 upto_0_11 Let_def)

section \<open>Properties of the evaluation\<close>

lemma cells_classify: "cells (classify pred act c) = cells c + 1"
  by (simp add: classify_def cells_def)

lemma dom_updateAt [simp]: "dom (updateAt symb f m) = dom m"
  by (auto simp: updateAt_def split: option.splits)

lemma cellsAt_updateAt:
  "cellsAt (updateAt symb (classify pred act) m) s
     = cellsAt m s + (if s = symb \<and> symb \<in> dom m then 1 else 0)"
  by (auto simp: cellsAt_def updateAt_def cells_classify split: option.splits)

lemma dayStep_confusions:
  assumes "dayStep G ri row symb offset day (t, n, fl) = Inr (t', n', fl')"
  shows "\<exists>pred act. confusions t' = updateAt symb (classify pred act) (confusions t)"
proof -
  from assms obtain truth where g: "arrayAt G ri = Some truth"
    by (cases "arrayAt G ri") (simp_all add: dayStep_def Let_def)
  define pred where "pred = threshold (case arrayAt row (offset + day) of
                                None \<Rightarrow> Undefined | Some v \<Rightarrow> Num v)"
  define act where "act = (case arrayAt truth (offset + day) of
                             None \<Rightarrow> Undefined | Some v \<Rightarrow> Num v)"
  from assms g have "confusions t' = updateAt symb (classify pred act) (confusions t)"
    by (cases "act = Num pred") (auto simp: dayStep_def Let_def pred_def act_def)
  then show ?thesis by blast
qed

lemma dayStep_cells:
  assumes "dayStep G ri row symb offset day (t, n, fl) = Inr (t', n', fl')"
  shows "dom (confusions t') = dom (confusions t)
         \<and> cellsAt (confusions t') s
             = cellsAt (confusions t) s + (if s = symb \<and> symb \<in> dom (confusions t) then 1 else 0)"
proof -
  from dayStep_confusions [OF assms] obtain pred act
    where "confusions t' = updateAt symb (classify pred act) (confusions t)" by blast
  then show ?thesis by (simp add: cellsAt_updateAt)
qed

lemma dayStep_ok:
  assumes "arrayAt G ri = Some truth"
  shows "\<exists>acc'. dayStep G ri row symb offset day acc = Inr acc'"
proof -
  obtain t n fl where "acc = (t, n, fl)" by (rule prod_cases3)
  with assms show ?thesis by (simp add: dayStep_def Let_def)
qed

lemma dayLoop_cells:
  "foldE (dayStep G ri row symb offset) days (t, n, fl) = Inr (t', n', fl')
   \<Longrightarrow> dom (confusions t') = dom (confusions t)
       \<and> cellsAt (confusions t') s
           = cellsAt (confusions t) s
             + (if s = symb \<and> symb \<in> dom (confusions t) then length days else 0)"
proof (induction days arbitrary: t n fl)
  case Nil
  then show ?case by simp
next
  case (Cons d ds)
  from Cons.prems obtain t1 n1 fl1 where
    s1: "dayStep G ri row symb offset d (t, n, fl) = Inr (t1, n1, fl1)"
    and r: "foldE (dayStep G ri row symb offset) ds (t1, n1, fl1) = Inr (t', n', fl')"
    by (auto split: sum.splits)
  from dayStep_cells [OF s1, of s] Cons.IH [OF r] show ?case by auto
qed

lemma dayLoop_ok:
  "arrayAt G ri = Some truth \<Longrightarrow> \<exists>acc'. foldE (dayStep G ri row symb offset) days acc = Inr acc'"
proof (induction days arbitrary: acc)
  case Nil
  then show ?case by (simp del: split_paired_Ex)
next
  case (Cons d ds)
  from dayStep_ok [OF Cons.prems, of row symb offset d acc] obtain a1
    where "dayStep G ri row symb offset d acc = Inr a1" by blast
  with Cons.IH [OF Cons.prems, of a1] show ?case by simp
qed

lemma symbolStep_cells:
  assumes "symbolStep G ri row H (symb, idx) t = Inr t'"
  shows "dom (confusions t') = dom (confusions t)
         \<and> cellsAt (confusions t') s
             = cellsAt (confusions t) s
               + (if s = symb \<and> symb \<in> dom (confusions t) then nat H else 0)"
proof -
  from assms obtain t1 n1 fl1 where
    r: "foldE (dayStep G ri row symb (idx * H)) [0..H - 1] (t, 0, []) = Inr (t1, n1, fl1)"
    and t': "confusions t' = confusions t1"
    by (auto simp: symbolStep_def Let_def split: sum.splits prod.splits)
  from dayLoop_cells [OF r, of s] t' show ?thesis by simp
qed

lemma symbolStep_ok:
  "arrayAt G ri = Some truth \<Longrightarrow> \<exists>t'. symbolStep G ri row H item t = Inr t'"
proof -
  assume a: "arrayAt G ri = Some truth"
  obtain symb idx where item: "item = (symb, idx)" by (cases item)
  from dayLoop_ok [OF a, of row symb "idx * H" "[0..H - 1]" "(t, 0, [])"]
  obtain acc' where "foldE (dayStep G ri row symb (idx * H)) [0..H - 1] (t, 0, []) = Inr acc'"
    by blast
  then show ?thesis by (cases acc') (simp add: symbolStep_def item Let_def)
qed

lemma symbolLoop_cells:
  "foldE (symbolStep G ri row H) items t = Inr t' \<Longrightarrow> distinct (map fst items)
   \<Longrightarrow> dom (confusions t') = dom (confusions t)
       \<and> cellsAt (confusions t') s
           = cellsAt (confusions t) s
             + (if s \<in> fst ` set items \<and> s \<in> dom (confusions t) then nat H else 0)"
proof (induction items arbitrary: t)
  case Nil
  then show ?case by simp
next
  case (Cons it its)
  obtain symb idx where it: "it = (symb, idx)" by (cases it)
  from Cons.prems(1) obtain t1 where
    s1: "symbolStep G ri row H (symb, idx) t = Inr t1"
    and r: "foldE (symbolStep G ri row H) its t1 = Inr t'"
    by (auto simp: it split: sum.splits)
  from Cons.prems(2) have d: "distinct (map fst its)" and nin: "symb \<notin> fst ` set its"
    by (auto simp: it)
  from symbolStep_cells [OF s1, of s] Cons.IH [OF r d] nin show ?case
    by (auto simp: it)
qed

lemma symbolLoop_ok:
  "arrayAt G ri = Some truth \<Longrightarrow> \<exists>t'. foldE (symbolStep G ri row H) items t = Inr t'"
proof (induction items arbitrary: t)
  case Nil
  then show ?case by simp
next
  case (Cons it its)
  from symbolStep_ok [OF Cons.prems, of row H it t] obtain t1
    where "symbolStep G ri row H it t = Inr t1" by blast
  with Cons.IH [OF Cons.prems, of t1] show ?case by simp
qed

lemma rowLoop_cells:
  "foldE (\<lambda>(row, ri). foldE (symbolStep G ri row H) items) rs t = Inr t'
   \<Longrightarrow> distinct (map fst items)
   \<Longrightarrow> dom (confusions t') = dom (confusions t)
       \<and> cellsAt (confusions t') s
           = cellsAt (confusions t) s
             + (if s \<in> fst ` set items \<and> s \<in> dom (confusions t) then length rs * nat H else 0)"
proof (induction rs arbitrary: t)
  case Nil
  then show ?case by simp
next
  case (Cons r rs)
  obtain row ri where r: "r = (row, ri)" by (cases r)
  from Cons.prems(1) obtain t1 where
    s1: "foldE (symbolStep G ri row H) items t = Inr t1"
    and rest: "foldE (\<lambda>(row, ri). foldE (symbolStep G ri row H) items) rs t1 = Inr t'"
    by (auto simp: r split: sum.splits)
  from symbolLoop_cells [OF s1 Cons.prems(2), of s] Cons.IH [OF rest Cons.prems(2)]
  show ?case by (auto simp: r)
qed

lemma rowLoop_ok:
  "\<forall>(row, ri) \<in> set rs. \<exists>truth. arrayAt G ri = Some truth
   \<Longrightarrow> \<exists>t'. foldE (\<lambda>(row, ri). foldE (symbolStep G ri row H) items) rs t = Inr t'"
proof (induction rs arbitrary: t)
  case Nil
  then show ?case by simp
next
  case (Cons r rs)
  obtain row ri where r: "r = (row, ri)" by (cases r)
  from Cons.prems r obtain truth where a: "arrayAt G ri = Some truth" by auto
  from symbolLoop_ok [OF a, of row H items t] obtain t1
    where "foldE (symbolStep G ri row H) items t = Inr t1" by blast
  moreover from Cons.prems have "\<forall>(row, ri) \<in> set rs. \<exists>truth. arrayAt G ri = Some truth" by simp
  ultimately show ?case using Cons.IH [of t1] by (simp add: r)
qed

lemma init_fold:
  "fold (\<lambda>symb m. m(symb \<mapsto> z)) syms m0 s = (if s \<in> set syms then Some z else m0 s)"
  by (induction syms arbitrary: m0) auto

lemma indexed_fst [simp]: "map fst (indexed xs) = xs"
  by (simp add: indexed_def)

lemma indexed_length [simp]: "length (indexed xs) = length xs"
  by (simp add: indexed_def)

lemma indexed_index:
  "(x, i) \<in> set (indexed xs) \<Longrightarrow> 0 \<le> i \<and> i < int (length xs)"
  by (auto simp: indexed_def in_set_zip)

lemma analysePredictions_cells:
  assumes d: "distinct syms" and len: "length P \<le> length G"
  shows "\<exists>r. analysePredictions P G syms H = Inr r
           \<and> dom (perStockConfusion r) = set syms
           \<and> (\<forall>s \<in> set syms. cellsAt (perStockConfusion r) s = length P * nat H)"
proof -
  let ?c0 = "fold (\<lambda>symb m. m(symb \<mapsto> \<lparr>tp = 0, fp = 0, fn = 0, tn = 0\<rparr>)) syms Map.empty"
  let ?t0 = "\<lparr> timeline = fold (\<lambda>symb m. m(symb \<mapsto> [])) syms Map.empty,
               totals = fold (\<lambda>symb m. m(symb \<mapsto> (0, 0))) syms Map.empty,
               confusions = ?c0, globalCorrect = 0, globalTotal = 0 \<rparr>"
  let ?loop = "foldE (\<lambda>(row, ri). foldE (symbolStep G ri row H) (indexed syms)) (indexed P) ?t0"
  have rows: "\<forall>(row, ri) \<in> set (indexed P). \<exists>truth. arrayAt G ri = Some truth"
    using len by (auto simp: arrayAt_def dest!: indexed_index)
  from rowLoop_ok [OF rows, of H "indexed syms" ?t0] obtain t where t: "?loop = Inr t" by blast
  have dist: "distinct (map fst (indexed syms))" using d by simp
  have dom0: "dom ?c0 = set syms" by (auto simp: init_fold dom_def)
  have zero: "\<forall>s \<in> set syms. cellsAt ?c0 s = 0"
    by (simp add: cellsAt_def cells_def init_fold)
  have fstset: "fst ` set (indexed syms) = set syms"
    by (metis indexed_fst set_map)
  have "dom (confusions t) = set syms
        \<and> (\<forall>s \<in> set syms. cellsAt (confusions t) s = length P * nat H)"
  proof (intro conjI ballI)
    from rowLoop_cells [OF t dist] dom0 show "dom (confusions t) = set syms" by simp
  next
    fix s assume s: "s \<in> set syms"
    from rowLoop_cells [OF t dist, of s] dom0 zero s fstset
    show "cellsAt (confusions t) s = length P * nat H" by simp
  qed
  moreover have "\<exists>r. analysePredictions P G syms H = Inr r \<and> perStockConfusion r = confusions t"
    using t by (simp add: analysePredictions_def Let_def)
  ultimately show ?thesis by auto
qed

lemma sum_list_const:
  "\<forall>x \<in> set xs. f x = (c::nat) \<Longrightarrow> sum_list (map f xs) = length xs * c"
  by (induction xs) auto

text \<open>
  Claim C7. For a list of distinct symbols and a ground-truth matrix with a row for every
  prediction row, \<open>analysePredictions\<close> returns a report in which the four counts of
  every symbol add up to samples \<times> horizon, and the counts of all symbols together to
  samples \<times> symbols \<times> horizon. (\<open>nat predictionDays\<close> is the horizon: the day loop runs
  that many times. Every cell falls into exactly one of the four counts whatever the
  entries are, so the entries need not be binary for this.)
\<close>

theorem analysePredictions_confusion_totals:
  assumes "distinct syms" and "length predictionsArray \<le> length groundTruthArray"
  shows "\<exists>r. analysePredictions predictionsArray groundTruthArray syms predictionDays = Inr r
           \<and> (\<forall>s \<in> set syms. \<exists>c. perStockConfusion r s = Some c
                  \<and> tp c + fp c + fn c + tn c = length predictionsArray * nat predictionDays)
           \<and> sum_list (map (cellsAt (perStockConfusion r)) syms)
               = length predictionsArray * length syms * nat predictionDays"
proof -
  from analysePredictions_cells [OF assms, of predictionDays] obtain r where
    r: "analysePredictions predictionsArray groundTruthArray syms predictionDays = Inr r"
    and d: "dom (perStockConfusion r) = set syms"
    and c: "\<forall>s \<in> set syms. cellsAt (perStockConfusion r) s
              = length predictionsArray * nat predictionDays"
    by blast
  have each: "\<forall>s \<in> set syms. \<exists>c. perStockConfusion r s = Some c
                  \<and> tp c + fp c + fn c + tn c = length predictionsArray * nat predictionDays"
  proof
    fix s assume s: "s \<in> set syms"
    with d obtain k where k: "perStockConfusion r s = Some k" by auto
    with c s have "cells k = length predictionsArray * nat predictionDays"
      by (auto simp: cellsAt_def)
    with k show "\<exists>c. perStockConfusion r s = Some c
                  \<and> tp c + fp c + fn c + tn c = length predictionsArray * nat predictionDays"
      by (simp add: cells_def)
  qed
  have "sum_list (map (cellsAt (perStockConfusion r)) syms)
          = length syms * (length predictionsArray * nat predictionDays)"
    using c by (rule sum_list_const)
  with r each show ?thesis by (simp add: mult_ac)
qed

theorem analysePredictions_confusion_totals_witness:
  "\<exists>r. analysePredictions [[Fin (1 / 2), Fin (1 / 5)], [Fin 1, Fin 0]]
                           [[Fin 1, Fin 0], [Fin 0, Fin 0]] [''A'', ''B''] 1 = Inr r
       \<and> (\<forall>s \<in> set [''A'', ''B'']. \<exists>c. perStockConfusion r s = Some c
              \<and> tp c + fp c + fn c + tn c
                  = length [[Fin (1 / 2), Fin (1 / 5)], [Fin 1, Fin 0 :: jsnum]] * nat 1)
       \<and> sum_list (map (cellsAt (perStockConfusion r)) [''A'', ''B''])
           = length [[Fin (1 / 2), Fin (1 / 5)], [Fin 1, Fin 0 :: jsnum]]
             * length [''A'', ''B''] * nat 1"
proof -
  have d: "distinct [''A'', ''B'']" by simp
  have l: "length [[Fin (1 / 2), Fin (1 / 5)], [Fin 1, Fin 0 :: jsnum]]
             \<le> length [[Fin 1, Fin 0], [Fin 0, Fin 0 :: jsnum]]" by simp
  from analysePredictions_confusion_totals [OF d l, of 1] show ?thesis .
qed

lemma threshold_finite: "threshold (Num (Fin q)) = (if 1 / 2 \<le> q then Fin 1 else Fin 0)"
  by (auto simp: threshold_def jsGreaterEq_def strictEq_def)

lemma threshold_other:
  "threshold (Num PInf) = Fin 1" "threshold (Num NInf) = Fin 0" "threshold (Num NaN) = Fin 0"
  "threshold Undefined = Fin 0" "threshold Null = Fin 0"
  by (simp_all add: threshold_def jsGreaterEq_def strictEq_def)

lemma dayStep_flags:
  assumes "arrayAt G ri = Some truth"
  shows "\<exists>t' n'. dayStep G ri row symb off day (t, n, fl)
                   = Inr (t', n', fl @ dayFlags row truth off [day])
           \<and> timeline t' = timeline t
           \<and> confusions t' = updateAt symb (classify (threshold (cellValue row (off + day)))
                                                     (cellValue truth (off + day))) (confusions t)
           \<and> n' = (if cellValue truth (off + day) = Num (threshold (cellValue row (off + day)))
                   then n + 1 else n)"
  using assms by (simp add: dayStep_def Let_def cellValue_def dayFlags_def)

lemma dayLoop_flags:
  "arrayAt G ri = Some truth
   \<Longrightarrow> \<exists>t' n'. foldE (dayStep G ri row symb off) days (t, n, fl)
                 = Inr (t', n', fl @ dayFlags row truth off days)
             \<and> timeline t' = timeline t"
proof (induction days arbitrary: t n fl)
  case Nil
  then show ?case by (simp add: dayFlags_def)
next
  case (Cons d ds)
  from dayStep_flags [OF Cons.prems, of row symb off d t n fl] obtain t1 n1 where
    s1: "dayStep G ri row symb off d (t, n, fl) = Inr (t1, n1, fl @ dayFlags row truth off [d])"
    and t1: "timeline t1 = timeline t" by blast
  from Cons.IH [OF Cons.prems, of t1 n1 "fl @ dayFlags row truth off [d]"] obtain t' n' where
    "foldE (dayStep G ri row symb off) ds (t1, n1, fl @ dayFlags row truth off [d])
       = Inr (t', n', (fl @ dayFlags row truth off [d]) @ dayFlags row truth off ds)"
    "timeline t' = timeline t1" by blast
  with s1 t1 show ?case by (simp add: dayFlags_def)
qed

lemma symbolStep_flags:
  assumes "arrayAt G ri = Some truth"
  shows "\<exists>t'. symbolStep G ri row H (symb, idx) t = Inr t'
           \<and> (\<forall>s. flagsAt (timeline t') s
                    = (if s = symb
                       then map_option (\<lambda>l. l @ [dayFlags row truth (idx * H) [0..H - 1]])
                              (flagsAt (timeline t) s)
                       else flagsAt (timeline t) s))"
proof -
  from dayLoop_flags [OF assms, of row symb "idx * H" "[0..H - 1]" t 0 "[]"] obtain t1 n1 where
    l: "foldE (dayStep G ri row symb (idx * H)) [0..H - 1] (t, 0, [])
          = Inr (t1, n1, dayFlags row truth (idx * H) [0..H - 1])"
    and t1: "timeline t1 = timeline t" by auto
  show ?thesis
    by (auto simp: symbolStep_def Let_def l t1 flagsAt_def updateAt_def split: option.splits)
qed

lemma symbolLoop_flags:
  "arrayAt G ri = Some truth \<Longrightarrow> distinct (map fst items)
   \<Longrightarrow> \<exists>t'. foldE (symbolStep G ri row H) items t = Inr t'
          \<and> (\<forall>s. flagsAt (timeline t') s
                   = (case map_of items s of
                        None \<Rightarrow> flagsAt (timeline t) s
                      | Some idx \<Rightarrow> map_option (\<lambda>l. l @ [dayFlags row truth (idx * H) [0..H - 1]])
                                     (flagsAt (timeline t) s)))"
proof (induction items arbitrary: t)
  case Nil
  then show ?case by simp
next
  case (Cons it its)
  obtain symb idx where it: "it = (symb, idx)" by (cases it)
  from Cons.prems(2) have d: "distinct (map fst its)" and nin: "map_of its symb = None"
    by (auto simp: it map_of_eq_None_iff)
  from symbolStep_flags [OF Cons.prems(1), of row H symb idx t] obtain t1 where
    s1: "symbolStep G ri row H (symb, idx) t = Inr t1"
    and f1: "\<forall>s. flagsAt (timeline t1) s
                    = (if s = symb
                       then map_option (\<lambda>l. l @ [dayFlags row truth (idx * H) [0..H - 1]])
                              (flagsAt (timeline t) s)
                       else flagsAt (timeline t) s)" by blast
  from Cons.IH [OF Cons.prems(1) d, of t1] obtain t' where
    r: "foldE (symbolStep G ri row H) its t1 = Inr t'"
    and f: "\<forall>s. flagsAt (timeline t') s
                   = (case map_of its s of
                        None \<Rightarrow> flagsAt (timeline t1) s
                      | Some idx \<Rightarrow> map_option (\<lambda>l. l @ [dayFlags row truth (idx * H) [0..H - 1]])
                                     (flagsAt (timeline t1) s))" by blast
  have "\<forall>s. flagsAt (timeline t') s
               = (case map_of (it # its) s of
                    None \<Rightarrow> flagsAt (timeline t) s
                  | Some idx \<Rightarrow> map_option (\<lambda>l. l @ [dayFlags row truth (idx * H) [0..H - 1]])
                                 (flagsAt (timeline t) s))"
  proof
    fix s
    show "flagsAt (timeline t') s
               = (case map_of (it # its) s of
                    None \<Rightarrow> flagsAt (timeline t) s
                  | Some idx \<Rightarrow> map_option (\<lambda>l. l @ [dayFlags row truth (idx * H) [0..H - 1]])
                                 (flagsAt (timeline t) s))"
    proof (cases "s = symb")
      case True
      with f [rule_format, of s] f1 [rule_format, of s] nin show ?thesis by (simp add: it)
    next
      case False
      with f [rule_format, of s] f1 [rule_format, of s] show ?thesis
        by (cases "map_of its s") (simp_all add: it)
    qed
  qed
  with s1 r show ?case by (simp add: it)
qed

lemma rowLoop_flags:
  "\<forall>(row, ri) \<in> set rs. 0 \<le> ri \<and> ri < int (length G) \<Longrightarrow> distinct (map fst items)
   \<Longrightarrow> \<exists>t'. foldE (\<lambda>(row, ri). foldE (symbolStep G ri row H) items) rs t = Inr t'
          \<and> (\<forall>s. flagsAt (timeline t') s
                   = (case map_of items s of
                        None \<Rightarrow> flagsAt (timeline t) s
                      | Some idx \<Rightarrow>
                          map_option
                            (\<lambda>l. l @ map (\<lambda>(row, ri). dayFlags row (G ! nat ri) (idx * H) [0..H - 1])
                                       rs)
                            (flagsAt (timeline t) s)))"
proof (induction rs arbitrary: t)
  case Nil
  then show ?case by (simp add: option.map_ident split: option.splits)
next
  case (Cons r rs)
  obtain row ri where r: "r = (row, ri)" by (cases r)
  from Cons.prems(1) r have a: "arrayAt G ri = Some (G ! nat ri)" by (simp add: arrayAt_def)
  from Cons.prems(1) have rest: "\<forall>(row, ri) \<in> set rs. 0 \<le> ri \<and> ri < int (length G)" by simp
  from symbolLoop_flags [OF a Cons.prems(2), of row H t] obtain t1 where
    s1: "foldE (symbolStep G ri row H) items t = Inr t1"
    and f1: "\<forall>s. flagsAt (timeline t1) s
                   = (case map_of items s of
                        None \<Rightarrow> flagsAt (timeline t) s
                      | Some idx \<Rightarrow>
                          map_option (\<lambda>l. l @ [dayFlags row (G ! nat ri) (idx * H) [0..H - 1]])
                            (flagsAt (timeline t) s))" by blast
  from Cons.IH [OF rest Cons.prems(2), of t1] obtain t' where
    l: "foldE (\<lambda>(row, ri). foldE (symbolStep G ri row H) items) rs t1 = Inr t'"
    and f: "\<forall>s. flagsAt (timeline t') s
                   = (case map_of items s of
                        None \<Rightarrow> flagsAt (timeline t1) s
                      | Some idx \<Rightarrow>
                          map_option
                            (\<lambda>l. l @ map (\<lambda>(row, ri). dayFlags row (G ! nat ri) (idx * H) [0..H - 1])
                                       rs)
                            (flagsAt (timeline t1) s))" by blast
  have "\<forall>s. flagsAt (timeline t') s
                   = (case map_of items s of
                        None \<Rightarrow> flagsAt (timeline t) s
                      | Some idx \<Rightarrow>
                          map_option
                            (\<lambda>l. l @ map (\<lambda>(row, ri). dayFlags row (G ! nat ri) (idx * H) [0..H - 1])
                                       (r # rs))
                            (flagsAt (timeline t) s))"
  proof
    fix s
    from f [rule_format, of s] f1 [rule_format, of s]
    show "flagsAt (timeline t') s
                   = (case map_of items s of
                        None \<Rightarrow> flagsAt (timeline t) s
                      | Some idx \<Rightarrow>
                          map_option
                            (\<lambda>l. l @ map (\<lambda>(row, ri). dayFlags row (G ! nat ri) (idx * H) [0..H - 1])
                                       (r # rs))
                            (flagsAt (timeline t) s))"
      by (cases "map_of items s") (simp_all add: r option.map_comp comp_def)
  qed
  with s1 l show ?case by (simp add: r)
qed

lemma map_of_indexed:
  assumes "distinct xs" "i < length xs"
  shows "map_of (indexed xs) (xs ! i) = Some (int i)"
proof -
  have "map_of (zip xs (map int [0..<length xs])) (xs ! i) = Some (map int [0..<length xs] ! i)"
    using assms by (intro map_of_zip_nth) simp_all
  with assms show ?thesis by (simp add: indexed_def)
qed

lemma map_indexed:
  "map (\<lambda>(x, i). f x (nat i)) (indexed xs) = map (\<lambda>i. f (xs ! i) i) [0..<length xs]"
  by (rule nth_equalityI) (simp_all add: indexed_def)

lemma analysePredictions_flags:
  assumes d: "distinct syms" and len: "length P \<le> length G"
  shows "\<exists>r. analysePredictions P G syms H = Inr r
           \<and> (\<forall>i < length syms.
                 flagsAt (perStockTimeline r) (syms ! i)
                   = Some (map (\<lambda>ri. dayFlags (P ! ri) (G ! ri) (int i * H) [0..H - 1])
                             [0..<length P]))"
proof -
  let ?t0 = "\<lparr> timeline = fold (\<lambda>symb m. m(symb \<mapsto> [])) syms Map.empty,
               totals = fold (\<lambda>symb m. m(symb \<mapsto> (0, 0))) syms Map.empty,
               confusions = fold (\<lambda>symb m. m(symb \<mapsto> \<lparr>tp = 0, fp = 0, fn = 0, tn = 0\<rparr>))
                                 syms Map.empty,
               globalCorrect = 0, globalTotal = 0 \<rparr>"
  have rows: "\<forall>(row, ri) \<in> set (indexed P). 0 \<le> ri \<and> ri < int (length G)"
    using len by (auto dest!: indexed_index)
  have dist: "distinct (map fst (indexed syms))" using d by simp
  from rowLoop_flags [OF rows dist, of H ?t0] obtain t where
    t: "foldE (\<lambda>(row, ri). foldE (symbolStep G ri row H) (indexed syms)) (indexed P) ?t0 = Inr t"
    and f: "\<forall>s. flagsAt (timeline t) s
                   = (case map_of (indexed syms) s of
                        None \<Rightarrow> flagsAt (timeline ?t0) s
                      | Some idx \<Rightarrow>
                          map_option
                            (\<lambda>l. l @ map (\<lambda>(row, ri). dayFlags row (G ! nat ri) (idx * H) [0..H - 1])
                                       (indexed P))
                            (flagsAt (timeline ?t0) s))" by blast
  have "\<forall>i < length syms.
          flagsAt (timeline t) (syms ! i)
            = Some (map (\<lambda>ri. dayFlags (P ! ri) (G ! ri) (int i * H) [0..H - 1]) [0..<length P])"
  proof (intro allI impI)
    fix i assume i: "i < length syms"
    have z: "flagsAt (timeline ?t0) (syms ! i) = Some []"
      using i by (simp add: flagsAt_def init_fold)
    have m: "map (\<lambda>(row, ri). dayFlags row (G ! nat ri) (int i * H) [0..H - 1]) (indexed P)
               = map (\<lambda>ri. dayFlags (P ! ri) (G ! ri) (int i * H) [0..H - 1]) [0..<length P]"
      by (rule map_indexed [of "\<lambda>row ri. dayFlags row (G ! ri) (int i * H) [0..H - 1]"])
    from f [rule_format, of "syms ! i"] map_of_indexed [OF d i] z m
    show "flagsAt (timeline t) (syms ! i)
            = Some (map (\<lambda>ri. dayFlags (P ! ri) (G ! ri) (int i * H) [0..H - 1]) [0..<length P])"
      by simp
  qed
  moreover have "\<exists>r. analysePredictions P G syms H = Inr r \<and> perStockTimeline r = timeline t"
    using t by (simp add: analysePredictions_def Let_def)
  ultimately show ?thesis by auto
qed

lemma analysePredictions_flag:
  assumes d: "distinct syms" and len: "length P \<le> length G"
    and i: "i < length syms" and ri: "ri < length P" and day: "0 \<le> day" "day < H"
  shows "\<exists>r entries. analysePredictions P G syms H = Inr r
           \<and> perStockTimeline r (syms ! i) = Some entries
           \<and> length entries = length P
           \<and> length (perDayFlags (entries ! ri)) = nat H
           \<and> perDayFlags (entries ! ri) ! nat day
               = \<lparr>predicted = threshold (cellValue (P ! ri) (int i * H + day)),
                  actual = cellValue (G ! ri) (int i * H + day),
                  correct = (cellValue (G ! ri) (int i * H + day)
                               = Num (threshold (cellValue (P ! ri) (int i * H + day))))\<rparr>"
proof -
  from analysePredictions_flags [OF d len, of H] i obtain r where
    r: "analysePredictions P G syms H = Inr r"
    and f: "flagsAt (perStockTimeline r) (syms ! i)
              = Some (map (\<lambda>ri. dayFlags (P ! ri) (G ! ri) (int i * H) [0..H - 1]) [0..<length P])"
    by blast
  from f obtain entries where e: "perStockTimeline r (syms ! i) = Some entries"
    and m: "map perDayFlags entries
              = map (\<lambda>ri. dayFlags (P ! ri) (G ! ri) (int i * H) [0..H - 1]) [0..<length P]"
    by (auto simp: flagsAt_def)
  from arg_cong [OF m, of length] have l: "length entries = length P" by simp
  from arg_cong [OF m, of "\<lambda>xs. xs ! ri"] ri l
  have p: "perDayFlags (entries ! ri) = dayFlags (P ! ri) (G ! ri) (int i * H) [0..H - 1]"
    by simp
  from day have n: "nat day < length [0..H - 1]" by simp
  from upto_nth [OF n] day have u: "[0..H - 1] ! nat day = day" by simp
  from n u have "dayFlags (P ! ri) (G ! ri) (int i * H) [0..H - 1] ! nat day
           = \<lparr>predicted = threshold (cellValue (P ! ri) (int i * H + day)),
              actual = cellValue (G ! ri) (int i * H + day),
              correct = (cellValue (G ! ri) (int i * H + day)
                           = Num (threshold (cellValue (P ! ri) (int i * H + day))))\<rparr>"
    by (simp add: dayFlags_def)
  moreover have "length (dayFlags (P ! ri) (G ! ri) (int i * H) [0..H - 1]) = nat H"
    by (simp add: dayFlags_def)
  ultimately show ?thesis using r e l p by simp
qed

text \<open>
  Claim C10. The threshold comparison is \<^verbatim>\<open>>=\<close>: the call for a finite probability \<open>q\<close>
  is 1 exactly when \<open>q \<ge> 0.5\<close>, so a probability of exactly 0.5 is the call 1. In the
  day loop of \<open>analysePredictions\<close>, whatever the matrices, the position and the
  accumulators, a cell that is exactly 0.5 pushes a flag with \<open>predicted = 1\<close> and has
  its symbol's confusion counts updated for the call 1: a true positive against the
  label 1, a false positive against the label 0. And in the report that
  \<open>analysePredictions\<close> returns (distinct symbols, a ground-truth row for every
  prediction row), the flag of sample \<open>k\<close>, symbol \<open>i\<close> and day \<open>day\<close> has the call 1
  exactly when the finite cell \<open>predictionsArray[k][i \<cdot> predictionDays + day]\<close> is at
  least 0.5. A single cell 0.5 is reported as one true positive against the label 1 and
  as one false positive against the label 0.
\<close>

theorem threshold_tie_is_positive:
  "threshold (Num (Fin q)) = (if 1 / 2 \<le> q then Fin 1 else Fin 0)
   \<and> threshold (Num (Fin (1 / 2))) = Fin 1
   \<and> (arrayAt row (offset + day) = Some (Fin (1 / 2))
        \<and> arrayAt groundTruthArray rowIndex = Some truth
      \<longrightarrow> (\<exists>t' count'.
             dayStep groundTruthArray rowIndex row symb offset day (t, count, flags)
               = Inr (t', count',
                      flags @ [\<lparr>predicted = Fin 1, actual = cellValue truth (offset + day),
                                correct = (cellValue truth (offset + day) = Num (Fin 1))\<rparr>])
             \<and> confusions t'
                 = updateAt symb (classify (Fin 1) (cellValue truth (offset + day)))
                     (confusions t)))
   \<and> classify (Fin 1) (Num (Fin 1)) c = c\<lparr>tp := tp c + 1\<rparr>
   \<and> classify (Fin 1) (Num (Fin 0)) c = c\<lparr>fp := fp c + 1\<rparr>
   \<and> (distinct syms \<and> length predictionsArray \<le> length groundTruthArray
        \<and> i < length syms \<and> k < length predictionsArray \<and> 0 \<le> day \<and> day < predictionDays
        \<and> arrayAt (predictionsArray ! k) (int i * predictionDays + day) = Some (Fin q)
      \<longrightarrow> (\<exists>r entries.
             analysePredictions predictionsArray groundTruthArray syms predictionDays = Inr r
             \<and> perStockTimeline r (syms ! i) = Some entries
             \<and> length entries = length predictionsArray
             \<and> length (perDayFlags (entries ! k)) = nat predictionDays
             \<and> predicted (perDayFlags (entries ! k) ! nat day)
                 = (if 1 / 2 \<le> q then Fin 1 else Fin 0)))
   \<and> (\<exists>r. analysePredictions [[Fin (1 / 2)]] [[Fin 1]] [''A''] 1 = Inr r
          \<and> perStockConfusion r ''A'' = Some \<lparr>tp = 1, fp = 0, fn = 0, tn = 0\<rparr>)
   \<and> (\<exists>r. analysePredictions [[Fin (1 / 2)]] [[Fin 0]] [''A''] 1 = Inr r
          \<and> perStockConfusion r ''A'' = Some \<lparr>tp = 0, fp = 1, fn = 0, tn = 0\<rparr>)"
proof (intro conjI impI)
  show "threshold (Num (Fin q)) = (if 1 / 2 \<le> q then Fin 1 else Fin 0)"
    by (rule threshold_finite)
  show "threshold (Num (Fin (1 / 2))) = Fin 1" by (simp add: threshold_finite)
  show "classify (Fin 1) (Num (Fin 1)) c = c\<lparr>tp := tp c + 1\<rparr>" by (simp add: classify_def)
  show "classify (Fin 1) (Num (Fin 0)) c = c\<lparr>fp := fp c + 1\<rparr>" by (simp add: classify_def)
  show "\<exists>r. analysePredictions [[Fin (1 / 2)]] [[Fin 1]] [''A''] 1 = Inr r
          \<and> perStockConfusion r ''A'' = Some \<lparr>tp = 1, fp = 0, fn = 0, tn = 0\<rparr>"
    by (simp add: analysePredictions_def indexed_def symbolStep_def dayStep_def updateAt_def
        classify_def threshold_def arrayAt_def jsGreaterEq_def strictEq_def Let_def)
  show "\<exists>r. analysePredictions [[Fin (1 / 2)]] [[Fin 0]] [''A''] 1 = Inr r
          \<and> perStockConfusion r ''A'' = Some \<lparr>tp = 0, fp = 1, fn = 0, tn = 0\<rparr>"
    by (simp add: analysePredictions_def indexed_def symbolStep_def dayStep_def updateAt_def
        classify_def threshold_def arrayAt_def jsGreaterEq_def strictEq_def Let_def)
next
  assume a: "arrayAt row (offset + day) = Some (Fin (1 / 2))
        \<and> arrayAt groundTruthArray rowIndex = Some truth"
  then have g: "arrayAt groundTruthArray rowIndex = Some truth" by simp
  from a have p: "threshold (cellValue row (offset + day)) = Fin 1"
    by (simp add: cellValue_def threshold_finite)
  from dayStep_flags [OF g, of row symb offset day t count flags] p
  show "\<exists>t' count'.
             dayStep groundTruthArray rowIndex row symb offset day (t, count, flags)
               = Inr (t', count',
                      flags @ [\<lparr>predicted = Fin 1, actual = cellValue truth (offset + day),
                                correct = (cellValue truth (offset + day) = Num (Fin 1))\<rparr>])
             \<and> confusions t'
                 = updateAt symb (classify (Fin 1) (cellValue truth (offset + day)))
                     (confusions t)"
    by (auto simp: dayFlags_def)
next
  assume a: "distinct syms \<and> length predictionsArray \<le> length groundTruthArray
        \<and> i < length syms \<and> k < length predictionsArray \<and> 0 \<le> day \<and> day < predictionDays
        \<and> arrayAt (predictionsArray ! k) (int i * predictionDays + day) = Some (Fin q)"
  then have h: "distinct syms" "length predictionsArray \<le> length groundTruthArray"
    "i < length syms" "k < length predictionsArray" "0 \<le> day" "day < predictionDays"
    by simp_all
  from a have p: "threshold (cellValue (predictionsArray ! k) (int i * predictionDays + day))
                    = (if 1 / 2 \<le> q then Fin 1 else Fin 0)"
    by (simp add: cellValue_def threshold_finite)
  from analysePredictions_flag [OF h] obtain r entries where
    "analysePredictions predictionsArray groundTruthArray syms predictionDays = Inr r"
    "perStockTimeline r (syms ! i) = Some entries"
    "length entries = length predictionsArray"
    "length (perDayFlags (entries ! k)) = nat predictionDays"
    "perDayFlags (entries ! k) ! nat day
       = \<lparr>predicted = threshold (cellValue (predictionsArray ! k) (int i * predictionDays + day)),
          actual = cellValue (groundTruthArray ! k) (int i * predictionDays + day),
          correct = (cellValue (groundTruthArray ! k) (int i * predictionDays + day)
                       = Num (threshold (cellValue (predictionsArray ! k)
                                           (int i * predictionDays + day))))\<rparr>"
    by blast
  with p show "\<exists>r entries.
             analysePredictions predictionsArray groundTruthArray syms predictionDays = Inr r
             \<and> perStockTimeline r (syms ! i) = Some entries
             \<and> length entries = length predictionsArray
             \<and> length (perDayFlags (entries ! k)) = nat predictionDays
             \<and> predicted (perDayFlags (entries ! k) ! nat day)
                 = (if 1 / 2 \<le> q then Fin 1 else Fin 0)"
    by simp
qed

theorem threshold_tie_is_positive_witness:
  "(\<exists>t' count'.
      dayStep [[Fin 0, Fin 1]] 0 [Fin (1 / 5), Fin (1 / 2)] ''A'' 0 1
        (\<lparr>timeline = [''A'' \<mapsto> []], totals = [''A'' \<mapsto> (0, 0)],
          confusions = [''A'' \<mapsto> \<lparr>tp = 0, fp = 0, fn = 0, tn = 1\<rparr>],
          globalCorrect = 1, globalTotal = 1\<rparr>, 1,
         [\<lparr>predicted = Fin 0, actual = Num (Fin 0), correct = True\<rparr>])
        = Inr (t', count',
               [\<lparr>predicted = Fin 0, actual = Num (Fin 0), correct = True\<rparr>,
                \<lparr>predicted = Fin 1, actual = Num (Fin 1), correct = True\<rparr>])
      \<and> confusions t' ''A'' = Some \<lparr>tp = 1, fp = 0, fn = 0, tn = 1\<rparr>)
   \<and> (\<exists>r entries.
        analysePredictions [[Fin (1 / 5), Fin (1 / 2)], [Fin (1 / 2), Fin (4 / 5)]]
                           [[Fin 0, Fin 1], [Fin 0, Fin 1]] [''A''] 2 = Inr r
        \<and> perStockTimeline r ''A'' = Some entries
        \<and> length entries = 2
        \<and> length (perDayFlags (entries ! 1)) = 2
        \<and> predicted (perDayFlags (entries ! 1) ! 0) = Fin 1)"
proof -
  let ?t = "\<lparr>timeline = [''A'' \<mapsto> []], totals = [''A'' \<mapsto> (0, 0)],
             confusions = [''A'' \<mapsto> \<lparr>tp = 0, fp = 0, fn = 0, tn = 1\<rparr>],
             globalCorrect = 1, globalTotal = 1\<rparr>"
  let ?P = "[[Fin (1 / 5), Fin (1 / 2)], [Fin (1 / 2), Fin (4 / 5)]]"
  let ?G = "[[Fin 0, Fin 1], [Fin 0, Fin (1::rat)]]"
  note a = threshold_tie_is_positive
    [where q = "1 / 2" and row = "[Fin (1 / 5), Fin (1 / 2)]" and offset = 0 and day = 1
       and groundTruthArray = "[[Fin 0, Fin 1]]" and rowIndex = 0 and truth = "[Fin 0, Fin 1]"
       and symb = "''A''" and t = ?t and count = 1
       and flags = "[\<lparr>predicted = Fin 0, actual = Num (Fin 0), correct = True\<rparr>]"]
  note b = threshold_tie_is_positive
    [where q = "1 / 2" and predictionsArray = ?P and groundTruthArray = ?G
       and syms = "[''A'']" and i = 0 and k = 1 and day = 0 and predictionDays = 2]
  note a3 = a [THEN conjunct2, THEN conjunct2, THEN conjunct1]
  note b6 = b [THEN conjunct2, THEN conjunct2, THEN conjunct2, THEN conjunct2, THEN conjunct2,
               THEN conjunct1]
  have "arrayAt [Fin (1 / 5), Fin (1 / 2)] (0 + 1) = Some (Fin (1 / 2))
          \<and> arrayAt [[Fin 0, Fin 1]] 0 = Some [Fin 0, Fin (1::rat)]"
    by (simp add: arrayAt_def)
  from a3 [rule_format, OF this] obtain t' count' where
    s: "dayStep [[Fin 0, Fin 1]] 0 [Fin (1 / 5), Fin (1 / 2)] ''A'' 0 1
          (?t, 1, [\<lparr>predicted = Fin 0, actual = Num (Fin 0), correct = True\<rparr>])
        = Inr (t', count',
               [\<lparr>predicted = Fin 0, actual = Num (Fin 0), correct = True\<rparr>]
               @ [\<lparr>predicted = Fin 1, actual = cellValue [Fin 0, Fin 1] (0 + 1),
                   correct = (cellValue [Fin 0, Fin 1] (0 + 1) = Num (Fin 1))\<rparr>])"
    and c: "confusions t'
              = updateAt ''A'' (classify (Fin 1) (cellValue [Fin 0, Fin 1] (0 + 1)))
                  (confusions ?t)"
    by blast
  have v: "cellValue [Fin 0, Fin 1] 1 = Num (Fin 1)"
    by (simp add: cellValue_def arrayAt_def)
  from c have c': "confusions t' ''A'' = Some \<lparr>tp = 1, fp = 0, fn = 0, tn = 1\<rparr>"
    by (simp add: v updateAt_def classify_def)
  from s have s': "dayStep [[Fin 0, Fin 1]] 0 [Fin (1 / 5), Fin (1 / 2)] ''A'' 0 1
          (?t, 1, [\<lparr>predicted = Fin 0, actual = Num (Fin 0), correct = True\<rparr>])
        = Inr (t', count',
               [\<lparr>predicted = Fin 0, actual = Num (Fin 0), correct = True\<rparr>,
                \<lparr>predicted = Fin 1, actual = Num (Fin 1), correct = True\<rparr>])"
    by (simp add: v)
  from s' c' have 1: "\<exists>t' count'.
      dayStep [[Fin 0, Fin 1]] 0 [Fin (1 / 5), Fin (1 / 2)] ''A'' 0 1
        (?t, 1, [\<lparr>predicted = Fin 0, actual = Num (Fin 0), correct = True\<rparr>])
        = Inr (t', count',
               [\<lparr>predicted = Fin 0, actual = Num (Fin 0), correct = True\<rparr>,
                \<lparr>predicted = Fin 1, actual = Num (Fin 1), correct = True\<rparr>])
      \<and> confusions t' ''A'' = Some \<lparr>tp = 1, fp = 0, fn = 0, tn = 1\<rparr>"
    by blast
  have "distinct [''A''] \<and> length ?P \<le> length ?G \<and> 0 < length [''A''] \<and> 1 < length ?P
          \<and> (0::int) \<le> 0 \<and> (0::int) < 2
          \<and> arrayAt (?P ! 1) (int 0 * 2 + 0) = Some (Fin (1 / 2))"
    by (simp add: arrayAt_def)
  from b6 [rule_format, OF this] have 2: "\<exists>r entries.
        analysePredictions ?P ?G [''A''] 2 = Inr r
        \<and> perStockTimeline r ''A'' = Some entries
        \<and> length entries = 2
        \<and> length (perDayFlags (entries ! 1)) = 2
        \<and> predicted (perDayFlags (entries ! 1) ! 0) = Fin 1"
    by (simp add: numeral_2_eq_2)
  from 1 2 show ?thesis by blast
qed

section \<open>Properties of the plateau controller\<close>















end
